theory Spec2Isabelle
  imports Main
begin

section \<open>Manubot's command line interface (manubot/command.py)\<close>

text \<open>
  The module builds an \<^verbatim>\<open>argparse\<close> parser with five subcommands, configures
  \<^verbatim>\<open>logging\<close> with two handlers on the root logger, resolves the selected
  subcommand's handler by name, runs it and turns a fired error handler into exit status 1.

  The embedding follows the module function by function. What the module delegates to
  the Python standard library is written out as the library computes it (CPython 3.11:
  \<^verbatim>\<open>argparse.ArgumentParser.parse_args\<close>, \<^verbatim>\<open>logging.Logger.log\<close>), restricted to
  the features this module uses. Strings are byte strings; the formatted help and usage
  texts of argparse are not modelled, only the fact that they are printed.
\<close>

subsection \<open>Python values held by a namespace\<close>

datatype pyval =
    PNone
  | PBool bool
  | PStr string
  | PPath string
  | PList "pyval list"

type_synonym namespace = "string \<rightharpoonup> pyval"

subsection \<open>Actions, as \<^verbatim>\<open>add_argument\<close> creates them\<close>

datatype nargs = NargsNone | NargsOptional | NargsOneOrMore | NargsZero | NargsParser

datatype act_kind =
    Store
  | StoreConst
  | Append
  | HelpAction
  | VersionAction string
  | SubParsersAction

datatype atype = TypeStr | TypePath

text \<open>
  \<open>dest = None\<close> and \<open>default = None\<close> stand for argparse's \<^verbatim>\<open>SUPPRESS\<close>;
  Python's \<^verbatim>\<open>None\<close> is \<open>PNone\<close>. \<open>atype = TypeStr\<close> covers \<^verbatim>\<open>type=None\<close>
  and \<^verbatim>\<open>type=str\<close>, both the identity on strings.
\<close>

record action =
  option_strings :: "string list"
  dest :: "string option"
  kind :: act_kind
  nargs :: nargs
  const :: pyval
  default :: "pyval option"
  atype :: atype
  choices :: "string list option"
  required :: bool

text \<open>\<^verbatim>\<open>dest\<close> of an optional: the first long option string without its dashes, \<^verbatim>\<open>-\<close>
  replaced by \<^verbatim>\<open>_\<close>.\<close>

definition dest_of :: "string \<Rightarrow> string" where
  "dest_of flag =
     map (\<lambda>c. if c = CHR ''-'' then CHR ''_'' else c) (dropWhile (\<lambda>c. c = CHR ''-'') flag)"

text \<open>The defaults of \<^verbatim>\<open>add_argument(flag)\<close> for each \<^verbatim>\<open>action=\<close> the module uses.\<close>

definition store :: "string \<Rightarrow> action" where
  "store flag =
     \<lparr>option_strings = [flag], dest = Some (dest_of flag), kind = Store, nargs = NargsNone,
      const = PNone, default = Some PNone, atype = TypeStr, choices = None,
      required = False\<rparr>"

definition store_const :: "string \<Rightarrow> string \<Rightarrow> pyval \<Rightarrow> action" where
  "store_const flag d c =
     \<lparr>option_strings = [flag], dest = Some d, kind = StoreConst, nargs = NargsZero,
      const = c, default = Some PNone, atype = TypeStr, choices = None,
      required = False\<rparr>"

definition store_true :: "string \<Rightarrow> action" where
  "store_true flag = (store_const flag (dest_of flag) (PBool True))\<lparr>default := Some (PBool False)\<rparr>"

definition store_false :: "string \<Rightarrow> string \<Rightarrow> action" where
  "store_false flag d = (store_const flag d (PBool False))\<lparr>default := Some (PBool True)\<rparr>"

definition append :: "string \<Rightarrow> action" where
  "append flag = (store flag)\<lparr>kind := Append\<rparr>"

definition positional :: "string \<Rightarrow> nargs \<Rightarrow> action" where
  "positional d n =
     \<lparr>option_strings = [], dest = Some d, kind = Store, nargs = n,
      const = PNone, default = Some PNone, atype = TypeStr, choices = None,
      required = True\<rparr>"

text \<open>The \<^verbatim>\<open>-h/--help\<close> action every \<^verbatim>\<open>ArgumentParser\<close> adds (\<^verbatim>\<open>add_help=True\<close>).\<close>

definition help_action :: action where
  "help_action =
     \<lparr>option_strings = [''-h'', ''--help''], dest = None, kind = HelpAction,
      nargs = NargsZero, const = PNone, default = None, atype = TypeStr, choices = None,
      required = False\<rparr>"

definition version_action :: "string \<Rightarrow> string \<Rightarrow> action" where
  "version_action flag v =
     \<lparr>option_strings = [flag], dest = None, kind = VersionAction v,
      nargs = NargsZero, const = PNone, default = None, atype = TypeStr, choices = None,
      required = False\<rparr>"

text \<open>\<^verbatim>\<open>_get_action_name\<close>: the option strings joined by \<^verbatim>\<open>/\<close>, or the
  \<^verbatim>\<open>dest\<close> of a positional. Within one parser of this module the names are
  distinct, so a name identifies its action in the sets the parser keeps.\<close>

fun join :: "string \<Rightarrow> string list \<Rightarrow> string" where
  "join sep [] = []"
| "join sep [x] = x"
| "join sep (x # y # ys) = x @ sep @ join sep (y # ys)"

definition get_action_name :: "action \<Rightarrow> string" where
  "get_action_name a =
     (if option_strings a \<noteq> [] then join ''/'' (option_strings a)
      else (case dest a of Some d \<Rightarrow> d | None \<Rightarrow> []))"

subsection \<open>Parsers\<close>

text \<open>
  A parser: its program name, its actions in the order they were added, its mutually
  exclusive groups (each the list of its members' names) and the defaults of
  \<^verbatim>\<open>set_defaults\<close>. No parser of this module has more than one positional, and no
  group is \<^verbatim>\<open>required\<close>.
\<close>

record parser =
  prog :: string
  actions :: "action list"
  mutually_exclusive_groups :: "string list list"
  defaults :: "(string \<times> pyval) list"

definition new_parser :: "string \<Rightarrow> parser" where
  "new_parser name =
     \<lparr>prog = name, actions = [help_action], mutually_exclusive_groups = [], defaults = []\<rparr>"

definition add_argument :: "action \<Rightarrow> parser \<Rightarrow> parser" where
  "add_argument a p = p\<lparr>actions := actions p @ [a]\<rparr>"

definition add_mutually_exclusive_group :: "action list \<Rightarrow> parser \<Rightarrow> parser" where
  "add_mutually_exclusive_group as p =
     p\<lparr>actions := actions p @ as,
       mutually_exclusive_groups :=
         mutually_exclusive_groups p @ [map get_action_name as]\<rparr>"

definition set_defaults :: "string \<Rightarrow> pyval \<Rightarrow> parser \<Rightarrow> parser" where
  "set_defaults k v p = p\<lparr>defaults := defaults p @ [(k, v)]\<rparr>"

text \<open>\<^verbatim>\<open>subparsers\<close>: the name-to-parser dictionary of the subparsers action, in
  insertion order. \<^verbatim>\<open>add_parser(name=...)\<close> sets \<^verbatim>\<open>prog\<close> to the parent's
  program name followed by the subcommand's.\<close>

type_synonym subparsers = "(string \<times> parser) list"

definition add_parser :: "string \<Rightarrow> (parser \<Rightarrow> parser) list \<Rightarrow> subparsers \<Rightarrow> subparsers" where
  "add_parser name calls sps =
     sps @ [(name, fold (\<lambda>call p. call p) calls (new_parser (''manubot '' @ name)))]"

definition add_subparser_process :: "subparsers \<Rightarrow> subparsers" where
  "add_subparser_process =
     add_parser ''process''
       [add_argument ((store ''--content-directory'')\<lparr>atype := TypePath, required := True\<rparr>),
        add_argument ((store ''--output-directory'')\<lparr>atype := TypePath, required := True\<rparr>),
        add_argument ((append ''--template-variables-path'')\<lparr>default := Some (PList [])\<rparr>),
        add_argument ((store_true ''--skip-citations'')\<lparr>required := True\<rparr>),
        add_argument ((store ''--cache-directory'')\<lparr>atype := TypePath\<rparr>),
        add_argument (store_true ''--clear-requests-cache''),
        add_argument (store_true ''--skip-remote''),
        set_defaults ''function'' (PStr ''manubot.process.process_command.cli_process'')]"

definition format_choices :: "string list" where
  "format_choices =
     [''csljson'', ''cslyaml'', ''plain'', ''markdown'', ''docx'', ''html'', ''jats'']"

definition format_group :: "action list" where
  "format_group =
     [(store ''--format'')\<lparr>choices := Some format_choices\<rparr>,
      store_const ''--yml'' ''format'' (PStr ''cslyaml''),
      store_const ''--txt'' ''format'' (PStr ''plain''),
      store_const ''--md'' ''format'' (PStr ''markdown'')]"

definition add_subparser_cite :: "subparsers \<Rightarrow> subparsers" where
  "add_subparser_cite =
     add_parser ''cite''
       [add_argument ((store ''--output'')\<lparr>atype := TypePath\<rparr>),
        add_mutually_exclusive_group format_group,
        add_argument
          ((store ''--csl'')\<lparr>default := Some (PStr ''https://citation-style.manubot.org/'')\<rparr>),
        add_argument ((append ''--bibliography'')\<lparr>default := Some (PList [])\<rparr>),
        add_argument (store_false ''--no-infer-prefix'' ''infer_prefix''),
        add_argument (store_false ''--allow-invalid-csl-data'' ''prune_csl''),
        add_argument (positional ''citekeys'' NargsOneOrMore),
        set_defaults ''function'' (PStr ''manubot.cite.cite_command.cli_cite'')]"

definition cache_group :: "action list" where
  "cache_group =
     [store_true ''--no-ots-cache'',
      (store ''--ots-cache'')\<lparr>default := Some (PPath ''ci/cache/ots''), atype := TypePath\<rparr>]"

definition add_subparser_webpage :: "subparsers \<Rightarrow> subparsers" where
  "add_subparser_webpage =
     add_parser ''webpage''
       [add_argument
          ((store ''--checkout'')\<lparr>nargs := NargsOptional, const := PStr ''gh-pages''\<rparr>),
        add_argument (store ''--version''),
        add_argument (store_true ''--timestamp''),
        add_mutually_exclusive_group cache_group,
        set_defaults ''function'' (PStr ''manubot.webpage.webpage_command.cli_webpage'')]"

definition add_subparser_airevision :: "subparsers \<Rightarrow> subparsers" where
  "add_subparser_airevision =
     add_parser ''ai-revision''
       [add_argument ((store ''--content-directory'')\<lparr>atype := TypePath, required := True\<rparr>),
        add_argument ((store ''--model-type'')\<lparr>default := Some (PStr ''GPT3CompletionModel'')\<rparr>),
        add_argument ((store ''--model-kwargs'')\<lparr>nargs := NargsOneOrMore\<rparr>),
        set_defaults ''function''
          (PStr ''manubot.ai_revision.ai_revision_command.cli_process'')]"

definition add_subparser_aicite :: "subparsers \<Rightarrow> subparsers" where
  "add_subparser_aicite =
     add_parser ''ai-cite''
       [add_argument ((store ''--content-directory'')\<lparr>atype := TypePath, required := True\<rparr>),
        add_argument ((store ''--model-type'')\<lparr>default := Some (PStr ''GPT3CompletionModel'')\<rparr>),
        add_argument ((store ''--model-kwargs'')\<lparr>nargs := NargsOneOrMore\<rparr>),
        set_defaults ''function'' (PStr ''manubot.ai_cite.ai_cite_command.cli_process'')]"

definition log_levels :: "string list" where
  "log_levels = [''DEBUG'', ''INFO'', ''WARNING'', ''ERROR'', ''CRITICAL'']"

definition log_level_action :: action where
  "log_level_action =
     (store ''--log-level'')\<lparr>default := Some (PStr ''WARNING''), choices := Some log_levels\<rparr>"

text \<open>The registry \<^verbatim>\<open>parse_arguments\<close> builds: the five \<^verbatim>\<open>add_subparser_*\<close> calls
  in order, then the loop that adds \<^verbatim>\<open>--log-level\<close> to every subparser.\<close>

definition registered_subparsers :: subparsers where
  "registered_subparsers =
     map (\<lambda>(name, subparser). (name, add_argument log_level_action subparser))
       (fold (\<lambda>call sps. call sps)
          [add_subparser_process, add_subparser_cite, add_subparser_webpage,
           add_subparser_airevision, add_subparser_aicite] [])"

text \<open>The top-level parser: \<^verbatim>\<open>--version\<close> and the subparsers action, whose
  \<^verbatim>\<open>required\<close> and \<^verbatim>\<open>dest\<close> the module sets after creating it. The version
  string of the package is a parameter.\<close>

definition subparsers_action :: action where
  "subparsers_action =
     \<lparr>option_strings = [], dest = Some ''subcommand'', kind = SubParsersAction,
      nargs = NargsParser, const = PNone, default = Some PNone, atype = TypeStr,
      choices = Some (map fst registered_subparsers), required = True\<rparr>"

definition top_parser :: "string \<Rightarrow> parser" where
  "top_parser manubot_version =
     fold (\<lambda>call p. call p)
       [add_argument (version_action ''--version'' (''v'' @ manubot_version)),
        add_argument subparsers_action]
       (new_parser ''manubot'')"

lemma registered_names:
  "map fst registered_subparsers = [''process'', ''cite'', ''webpage'', ''ai-revision'', ''ai-cite'']"
  by (simp add: registered_subparsers_def add_subparser_process_def add_subparser_cite_def
      add_subparser_webpage_def add_subparser_airevision_def add_subparser_aicite_def
      add_parser_def)

subsection \<open>How the parser ends the process\<close>

text \<open>
  \<^verbatim>\<open>ArgumentError\<close> messages and the messages of \<^verbatim>\<open>parser.error\<close>, by kind.
  \<^verbatim>\<open>parser.exit()\<close> after help or version raises \<^verbatim>\<open>SystemExit(0)\<close>,
  \<^verbatim>\<open>parser.error\<close> prints the usage and raises \<^verbatim>\<open>SystemExit(2)\<close>; any other
  exception ends the process with status 1.
\<close>

datatype arg_error =
    AmbiguousOption string "string list"
  | ExpectedOneArgument string
  | ExpectedAtLeastOneArgument string
  | IgnoredExplicitArgument string string
  | InvalidChoice string pyval
  | NotAllowedWith string string
  | UnknownParser string
  | RequiredArguments "string list"
  | UnrecognizedArguments "string list"

datatype parser_exit =
    PrintedHelp string
  | PrintedVersion string
  | UsageError string arg_error
  | UncaughtException string

fun exit_code :: "parser_exit \<Rightarrow> int" where
  "exit_code (PrintedHelp _) = 0"
| "exit_code (PrintedVersion _) = 0"
| "exit_code (UsageError _ _) = 2"
| "exit_code (UncaughtException _) = 1"

subsection \<open>Classifying the argument strings (\<^verbatim>\<open>_parse_optional\<close>)\<close>

definition option_string_actions :: "parser \<Rightarrow> (string \<times> action) list" where
  "option_string_actions p =
     concat (map (\<lambda>a. map (\<lambda>s. (s, a)) (option_strings a)) (actions p))"

definition startswith :: "string \<Rightarrow> string \<Rightarrow> bool" where
  "startswith s pre = (take (length pre) s = pre)"

text \<open>\<^verbatim>\<open>s.partition('=')\<close>: the text before the first \<^verbatim>\<open>=\<close>, whether there is one,
  and the text after it.\<close>

definition partition_eq :: "string \<Rightarrow> string \<times> bool \<times> string" where
  "partition_eq s =
     (takeWhile (\<lambda>c. c \<noteq> CHR ''='') s, CHR ''='' \<in> set s,
      tl (dropWhile (\<lambda>c. c \<noteq> CHR ''='') s))"

text \<open>\<^verbatim>\<open>_negative_number_matcher\<close>, the regular expression
  \<^verbatim>\<open>^-\d+$|^-\d*\.\d+$\<close> (\<^verbatim>\<open>$\<close> also matches before one final newline); digits are
  the ASCII digits.\<close>

definition is_digit :: "char \<Rightarrow> bool" where
  "is_digit c = (c \<in> set ''0123456789'')"

definition negative_number_exact :: "string \<Rightarrow> bool" where
  "negative_number_exact s =
     (case s of
        [] \<Rightarrow> False
      | c # r \<Rightarrow>
          c = CHR ''-'' \<and>
          ((r \<noteq> [] \<and> list_all is_digit r) \<or>
           (case dropWhile is_digit r of
              [] \<Rightarrow> False
            | d # f \<Rightarrow> d = CHR ''.'' \<and> f \<noteq> [] \<and> list_all is_digit f)))"

definition negative_number_like :: "string \<Rightarrow> bool" where
  "negative_number_like s =
     (negative_number_exact s \<or>
      (s \<noteq> [] \<and> last s = CHR 0x0A \<and> negative_number_exact (butlast s)))"

definition has_negative_number_optionals :: "parser \<Rightarrow> bool" where
  "has_negative_number_optionals p =
     list_ex negative_number_like (map fst (option_string_actions p))"

text \<open>An option tuple: the action (none for an unknown option), the option string, whether
  an \<^verbatim>\<open>=\<close> separated an explicit argument, and the explicit argument.\<close>

type_synonym opt_tuple = "action option \<times> string \<times> bool \<times> string option"

definition get_option_tuples :: "parser \<Rightarrow> string \<Rightarrow> opt_tuple list" where
  "get_option_tuples p s =
     (if take 2 s = ''--'' then
        (case partition_eq s of
           (option_prefix, sep, explicit_arg) \<Rightarrow>
             map (\<lambda>(option_string, a).
                    (Some a, option_string, sep, if sep then Some explicit_arg else None))
               (filter (\<lambda>(option_string, a). startswith option_string option_prefix)
                  (option_string_actions p)))
      else
        concat
          (map (\<lambda>(option_string, a).
                  if option_string = take 2 s then [(Some a, option_string, False, Some (drop 2 s))]
                  else if startswith option_string s then [(Some a, option_string, False, None)]
                  else [])
             (option_string_actions p)))"

text \<open>\<^verbatim>\<open>_parse_optional\<close>: \<open>Inr None\<close> for a positional, \<open>Inr (Some t)\<close> for an
  option, \<open>Inl\<close> when the string abbreviates more than one option.\<close>

definition parse_optional :: "parser \<Rightarrow> string \<Rightarrow> arg_error + opt_tuple option" where
  "parse_optional p arg_string =
     (if arg_string = [] then Inr None
      else if hd arg_string \<noteq> CHR ''-'' then Inr None
      else
        (case map_of (option_string_actions p) arg_string of
           Some a \<Rightarrow> Inr (Some (Some a, arg_string, False, None))
         | None \<Rightarrow>
             if length arg_string = 1 then Inr None
             else
               (case partition_eq arg_string of
                  (option_string, sep, explicit_arg) \<Rightarrow>
                    (case (if sep then map_of (option_string_actions p) option_string else None) of
                       Some a \<Rightarrow> Inr (Some (Some a, option_string, True, Some explicit_arg))
                     | None \<Rightarrow>
                         (case get_option_tuples p arg_string of
                            t1 # t2 # ts \<Rightarrow>
                              Inl (AmbiguousOption arg_string
                                     (map (\<lambda>(a, option_string, sep, ex). option_string)
                                        (t1 # t2 # ts)))
                          | [t] \<Rightarrow> Inr (Some t)
                          | [] \<Rightarrow>
                              if negative_number_like arg_string
                                 \<and> \<not> has_negative_number_optionals p
                              then Inr None
                              else if CHR '' '' \<in> set arg_string then Inr None
                              else Inr (Some (None, arg_string, False, None)))))))"

text \<open>The pattern of the argument strings: \<^verbatim>\<open>A\<close> for an argument, \<^verbatim>\<open>-\<close> for the
  first \<^verbatim>\<open>--\<close> (everything after it is an argument), \<^verbatim>\<open>O\<close> for an option. Each
  token keeps its argument string.\<close>

datatype tok = ArgTok string | DashTok | OptTok string opt_tuple

fun arg_string_of :: "tok \<Rightarrow> string" where
  "arg_string_of (ArgTok s) = s"
| "arg_string_of DashTok = ''--''"
| "arg_string_of (OptTok s _) = s"

fun is_arg :: "tok \<Rightarrow> bool" where
  "is_arg (ArgTok _) = True"
| "is_arg _ = False"

fun is_dash :: "tok \<Rightarrow> bool" where
  "is_dash DashTok = True"
| "is_dash _ = False"

fun is_opt :: "tok \<Rightarrow> bool" where
  "is_opt (OptTok _ _) = True"
| "is_opt _ = False"

fun classify :: "parser \<Rightarrow> string list \<Rightarrow> arg_error + tok list" where
  "classify p [] = Inr []"
| "classify p (s # ss) =
     (if s = ''--'' then Inr (DashTok # map ArgTok ss)
      else
        (case parse_optional p s of
           Inl e \<Rightarrow> Inl e
         | Inr c \<Rightarrow>
             (case classify p ss of
                Inl e \<Rightarrow> Inl e
              | Inr ts \<Rightarrow>
                  Inr ((case c of None \<Rightarrow> ArgTok s | Some t \<Rightarrow> OptTok s t) # ts))))"

subsection \<open>Matching argument counts (\<^verbatim>\<open>_get_nargs_pattern\<close>)\<close>

text \<open>
  The number of pattern characters the regular expression of an action matches at the
  start of the pattern, or \<open>None\<close> when it does not match. For an option the
  \<^verbatim>\<open>-\<close> is removed from the expression: \<^verbatim>\<open>A\<close>, \<^verbatim>\<open>A?\<close>, \<^verbatim>\<open>A[A]*\<close>, the
  empty expression and \<^verbatim>\<open>A[AO]*\<close>. For a positional: \<^verbatim>\<open>-*A-*\<close>,
  \<^verbatim>\<open>-*A?-*\<close>, \<^verbatim>\<open>-*A[A-]*\<close>, \<^verbatim>\<open>-*-*\<close> and \<^verbatim>\<open>-*A[-AO]*\<close>.
\<close>

definition dashes :: "tok list \<Rightarrow> nat" where
  "dashes ts = length (takeWhile is_dash ts)"

definition nargs_match :: "action \<Rightarrow> tok list \<Rightarrow> nat option" where
  "nargs_match a ts =
     (if option_strings a \<noteq> [] then
        (case nargs a of
           NargsNone \<Rightarrow> (case ts of ArgTok _ # _ \<Rightarrow> Some 1 | _ \<Rightarrow> None)
         | NargsOptional \<Rightarrow> (case ts of ArgTok _ # _ \<Rightarrow> Some 1 | _ \<Rightarrow> Some 0)
         | NargsOneOrMore \<Rightarrow>
             (case ts of ArgTok _ # _ \<Rightarrow> Some (length (takeWhile is_arg ts)) | _ \<Rightarrow> None)
         | NargsZero \<Rightarrow> Some 0
         | NargsParser \<Rightarrow>
             (case ts of
                ArgTok _ # r \<Rightarrow> Some (1 + length (takeWhile (\<lambda>t. \<not> is_dash t) r))
              | _ \<Rightarrow> None))
      else
        (let d = dashes ts; r = drop d ts in
         case nargs a of
           NargsNone \<Rightarrow> (case r of ArgTok _ # r' \<Rightarrow> Some (d + 1 + dashes r') | _ \<Rightarrow> None)
         | NargsOptional \<Rightarrow>
             (case r of ArgTok _ # r' \<Rightarrow> Some (d + 1 + dashes r') | _ \<Rightarrow> Some d)
         | NargsOneOrMore \<Rightarrow>
             (case r of
                ArgTok _ # r' \<Rightarrow> Some (d + 1 + length (takeWhile (\<lambda>t. \<not> is_opt t) r'))
              | _ \<Rightarrow> None)
         | NargsZero \<Rightarrow> Some d
         | NargsParser \<Rightarrow> (case r of ArgTok _ # r' \<Rightarrow> Some (length ts) | _ \<Rightarrow> None)))"

text \<open>\<^verbatim>\<open>_match_argument\<close> raises when the expression does not match.\<close>

definition match_argument :: "action \<Rightarrow> tok list \<Rightarrow> arg_error + nat" where
  "match_argument a ts =
     (case nargs_match a ts of
        Some n \<Rightarrow> Inr n
      | None \<Rightarrow>
          (case nargs a of
             NargsOneOrMore \<Rightarrow> Inl (ExpectedAtLeastOneArgument (get_action_name a))
           | _ \<Rightarrow> Inl (ExpectedOneArgument (get_action_name a))))"

subsection \<open>Converting and checking values (\<^verbatim>\<open>_get_values\<close>)\<close>

definition get_value :: "action \<Rightarrow> string \<Rightarrow> pyval" where
  "get_value a s = (case atype a of TypeStr \<Rightarrow> PStr s | TypePath \<Rightarrow> PPath s)"

definition check_value :: "action \<Rightarrow> pyval \<Rightarrow> arg_error + pyval" where
  "check_value a v =
     (case choices a of
        None \<Rightarrow> Inr v
      | Some cs \<Rightarrow>
          if v \<in> set (map PStr cs) then Inr v else Inl (InvalidChoice (get_action_name a) v))"

fun check_values :: "action \<Rightarrow> pyval list \<Rightarrow> arg_error + pyval list" where
  "check_values a [] = Inr []"
| "check_values a (v # vs) =
     (case check_value a v of
        Inl e \<Rightarrow> Inl e
      | Inr _ \<Rightarrow> (case check_values a vs of Inl e \<Rightarrow> Inl e | Inr ws \<Rightarrow> Inr (v # ws)))"

text \<open>The argument strings a positional other than the subparsers action receives lose
  their first \<^verbatim>\<open>--\<close>.\<close>

definition strip_dashes :: "action \<Rightarrow> string list \<Rightarrow> string list" where
  "strip_dashes a arg_strings =
     (if option_strings a = [] \<and> nargs a \<noteq> NargsParser then remove1 ''--'' arg_strings
      else arg_strings)"

definition get_values :: "action \<Rightarrow> string list \<Rightarrow> arg_error + pyval" where
  "get_values a arg_strings0 =
     (let arg_strings = strip_dashes a arg_strings0 in
      if arg_strings = [] \<and> nargs a = NargsOptional then
        (case (if option_strings a \<noteq> [] then const a
               else (case default a of Some v \<Rightarrow> v | None \<Rightarrow> PNone)) of
           PStr s \<Rightarrow> check_value a (get_value a s)
         | v \<Rightarrow> Inr v)
      else if length arg_strings = 1 \<and> (nargs a = NargsNone \<or> nargs a = NargsOptional) then
        check_value a (get_value a (hd arg_strings))
      else if nargs a = NargsParser then
        (case check_value a (get_value a (hd arg_strings)) of
           Inl e \<Rightarrow> Inl e
         | Inr _ \<Rightarrow> Inr (PList (map (get_value a) arg_strings)))
      else
        (case check_values a (map (get_value a) arg_strings) of
           Inl e \<Rightarrow> Inl e
         | Inr vs \<Rightarrow> Inr (PList vs)))"

text \<open>
  \<^verbatim>\<open>argument_values is not action.default\<close>: the values are the default object itself
  only where \<^verbatim>\<open>_get_values\<close> hands back the \<^verbatim>\<open>const\<close> or the default of an
  action with \<^verbatim>\<open>nargs='?'\<close> and no argument string; every other value is a new
  object.
\<close>

definition values_are_default :: "action \<Rightarrow> string list \<Rightarrow> bool" where
  "values_are_default a arg_strings =
     (strip_dashes a arg_strings = [] \<and> nargs a = NargsOptional \<and>
      (option_strings a = [] \<or> Some (const a) = default a))"

subsection \<open>Taking an action\<close>

text \<open>
  The state of \<^verbatim>\<open>_parse_known_args\<close>: the namespace, the two sets of seen actions (by
  name), the extras, the positionals left, and the unrecognized arguments a subparser
  left on the namespace.
\<close>

record pstate =
  ns :: namespace
  seen_actions :: "string list"
  seen_non_default_actions :: "string list"
  extras :: "string list"
  positionals :: "action list"
  unrecognized :: "string list"

text \<open>What the subparsers action does with the subcommand's name and the remaining
  argument strings: the chosen subparser's \<^verbatim>\<open>parse_known_args\<close>.\<close>

type_synonym subparse = "string \<Rightarrow> string list \<Rightarrow> parser_exit + (namespace \<times> string list)"

definition setattr :: "pstate \<Rightarrow> string option \<Rightarrow> pyval \<Rightarrow> pstate" where
  "setattr st d v = (case d of None \<Rightarrow> st | Some k \<Rightarrow> st\<lparr>ns := (ns st)(k \<mapsto> v)\<rparr>)"

text \<open>\<^verbatim>\<open>_copy_items\<close> of the attribute an append action extends.\<close>

definition copy_items :: "pstate \<Rightarrow> string option \<Rightarrow> pyval list" where
  "copy_items st d =
     (case d of
        None \<Rightarrow> []
      | Some k \<Rightarrow> (case ns st k of Some (PList xs) \<Rightarrow> xs | _ \<Rightarrow> []))"

definition call_action ::
  "subparse \<Rightarrow> parser \<Rightarrow> pstate \<Rightarrow> action \<Rightarrow> string list \<Rightarrow> pyval \<Rightarrow> parser_exit + pstate" where
  "call_action sub p st a arg_strings v =
     (case kind a of
        Store \<Rightarrow> Inr (setattr st (dest a) v)
      | StoreConst \<Rightarrow> Inr (setattr st (dest a) (const a))
      | Append \<Rightarrow> Inr (setattr st (dest a) (PList (copy_items st (dest a) @ [v])))
      | HelpAction \<Rightarrow> Inl (PrintedHelp (prog p))
      | VersionAction version \<Rightarrow> Inl (PrintedVersion version)
      | SubParsersAction \<Rightarrow>
          (case arg_strings of
             [] \<Rightarrow> Inl (UncaughtException ''IndexError'')
           | parser_name # rest \<Rightarrow>
               (case sub parser_name rest of
                  Inl e \<Rightarrow> Inl e
                | Inr (subnamespace, rest') \<Rightarrow>
                    Inr ((setattr st (dest a) (PStr parser_name))
                           \<lparr>ns := ns (setattr st (dest a) (PStr parser_name)) ++ subnamespace,
                            unrecognized := unrecognized st @ rest'\<rparr>))))"

definition action_conflicts :: "parser \<Rightarrow> action \<Rightarrow> string list" where
  "action_conflicts p a =
     concat (map (\<lambda>g. if get_action_name a \<in> set g then remove1 (get_action_name a) g else [])
               (mutually_exclusive_groups p))"

definition take_action ::
  "subparse \<Rightarrow> parser \<Rightarrow> pstate \<Rightarrow> action \<Rightarrow> string list \<Rightarrow> parser_exit + pstate" where
  "take_action sub p st a arg_strings =
     (let st1 = st\<lparr>seen_actions := get_action_name a # seen_actions st\<rparr> in
      case get_values a arg_strings of
        Inl e \<Rightarrow> Inl (UsageError (prog p) e)
      | Inr v \<Rightarrow>
          if values_are_default a arg_strings then call_action sub p st1 a arg_strings v
          else
            (let st2 = st1\<lparr>seen_non_default_actions :=
                             get_action_name a # seen_non_default_actions st1\<rparr> in
             case filter (\<lambda>c. c \<in> set (seen_non_default_actions st2)) (action_conflicts p a) of
               c # _ \<Rightarrow> Inl (UsageError (prog p) (NotAllowedWith (get_action_name a) c))
             | [] \<Rightarrow> call_action sub p st2 a arg_strings v))"

fun take_actions ::
  "subparse \<Rightarrow> parser \<Rightarrow> pstate \<Rightarrow> (action \<times> string list \<times> string) list
   \<Rightarrow> parser_exit + pstate" where
  "take_actions sub p st [] = Inr st"
| "take_actions sub p st ((a, arg_strings, option_string) # tuples) =
     (case take_action sub p st a arg_strings of
        Inl e \<Rightarrow> Inl e
      | Inr st' \<Rightarrow> take_actions sub p st' tuples)"

subsection \<open>Consuming one option (\<^verbatim>\<open>consume_optional\<close>)\<close>

text \<open>The explicit argument left after one single-dash flag has been split off:
  nothing, the text after an \<^verbatim>\<open>=\<close>, or the remaining characters.\<close>

definition next_explicit :: "string \<Rightarrow> bool \<times> string option" where
  "next_explicit e =
     (if e = [] then (False, None)
      else if hd e = CHR ''='' then (True, Some (tl e))
      else (False, Some e))"

fun explicit_size :: "string option \<Rightarrow> nat" where
  "explicit_size None = 0"
| "explicit_size (Some e) = Suc (length e)"

lemma next_explicit_size:
  "e \<noteq> [] \<Longrightarrow> (case next_explicit (tl e) of (sep, x) \<Rightarrow> explicit_size x) < Suc (length e)"
  by (cases e; cases "tl e") (auto simp: next_explicit_def)

text \<open>
  The \<^verbatim>\<open>while True\<close> loop of \<^verbatim>\<open>consume_optional\<close>: the action tuples to take, the
  extras found, and the number of following argument strings the option consumed.
\<close>

function action_tuples ::
  "parser \<Rightarrow> tok list \<Rightarrow> action \<Rightarrow> string \<Rightarrow> bool \<Rightarrow> string option
   \<Rightarrow> arg_error + ((action \<times> string list \<times> string) list \<times> string list \<times> nat)" where
  "action_tuples p following a option_string sep None =
     (case match_argument a following of
        Inl err \<Rightarrow> Inl err
      | Inr arg_count \<Rightarrow>
          Inr ([(a, map arg_string_of (take arg_count following), option_string)], [], arg_count))"
| "action_tuples p following a option_string sep (Some explicit_arg) =
     (case match_argument a [ArgTok explicit_arg] of
        Inl err \<Rightarrow> Inl err
      | Inr arg_count \<Rightarrow>
          if arg_count = 0 \<and> take 1 (drop 1 option_string) \<noteq> ''-'' \<and> explicit_arg \<noteq> [] then
            (if sep \<or> hd explicit_arg = CHR ''-'' then
               Inl (IgnoredExplicitArgument (get_action_name a) explicit_arg)
             else
               (case map_of (option_string_actions p) [hd option_string, hd explicit_arg] of
                  Some a' \<Rightarrow>
                    (case action_tuples p following a' [hd option_string, hd explicit_arg]
                            (fst (next_explicit (tl explicit_arg)))
                            (snd (next_explicit (tl explicit_arg))) of
                       Inl err \<Rightarrow> Inl err
                     | Inr (tuples, xs, n) \<Rightarrow> Inr ((a, [], option_string) # tuples, xs, n))
                | None \<Rightarrow> Inr ([(a, [], option_string)], [hd option_string # explicit_arg], 0)))
          else if arg_count = 1 then Inr ([(a, [explicit_arg], option_string)], [], 0)
          else Inl (IgnoredExplicitArgument (get_action_name a) explicit_arg))"
  by pat_completeness auto
termination
  by (relation "measure (\<lambda>(p, following, a, option_string, sep, ex). explicit_size ex)")
    (auto simp: next_explicit_size)

definition consume_optional ::
  "subparse \<Rightarrow> parser \<Rightarrow> pstate \<Rightarrow> string \<Rightarrow> opt_tuple \<Rightarrow> tok list
   \<Rightarrow> parser_exit + (pstate \<times> nat)" where
  "consume_optional sub p st arg_string t following =
     (case t of
        (None, option_string, sep, explicit_arg) \<Rightarrow>
          Inr (st\<lparr>extras := extras st @ [arg_string]\<rparr>, 0)
      | (Some a, option_string, sep, explicit_arg) \<Rightarrow>
          (case action_tuples p following a option_string sep explicit_arg of
             Inl err \<Rightarrow> Inl (UsageError (prog p) err)
           | Inr (tuples, xs, n) \<Rightarrow>
               (case take_actions sub p (st\<lparr>extras := extras st @ xs\<rparr>) tuples of
                  Inl e \<Rightarrow> Inl e
                | Inr st' \<Rightarrow> Inr (st', n))))"

subsection \<open>Consuming positionals (\<^verbatim>\<open>consume_positionals\<close>)\<close>

text \<open>With at most one positional left, \<^verbatim>\<open>_match_arguments_partial\<close> tries the
  expression of that positional and matches nothing when it fails.\<close>

definition consume_positionals ::
  "subparse \<Rightarrow> parser \<Rightarrow> pstate \<Rightarrow> tok list \<Rightarrow> parser_exit + (pstate \<times> nat)" where
  "consume_positionals sub p st ts =
     (case positionals st of
        [] \<Rightarrow> Inr (st, 0)
      | a # _ \<Rightarrow>
          (case nargs_match a ts of
             None \<Rightarrow> Inr (st, 0)
           | Some n \<Rightarrow>
               (case take_action sub p st a (map arg_string_of (take n ts)) of
                  Inl e \<Rightarrow> Inl e
                | Inr st' \<Rightarrow> Inr (st'\<lparr>positionals := tl (positionals st')\<rparr>, n))))"

subsection \<open>The main loop of \<^verbatim>\<open>_parse_known_args\<close>\<close>

text \<open>
  One round of the \<^verbatim>\<open>while\<close> loop, on the tokens from \<^verbatim>\<open>start_index\<close> on, of which
  one at least is an option: positionals before the next option are consumed and the
  round ends if there were any; otherwise the strings before the next option become
  extras and the option is consumed. The result is the new state and the tokens left.
\<close>

definition parse_step ::
  "subparse \<Rightarrow> parser \<Rightarrow> pstate \<Rightarrow> tok list \<Rightarrow> parser_exit + (pstate \<times> tok list)" where
  "parse_step sub p st ts =
     (case ts of
        OptTok arg_string t # following \<Rightarrow>
          (case consume_optional sub p st arg_string t following of
             Inl e \<Rightarrow> Inl e
           | Inr (st', n) \<Rightarrow> Inr (st', drop n following))
      | _ \<Rightarrow>
          (case consume_positionals sub p st ts of
             Inl e \<Rightarrow> Inl e
           | Inr (st', n) \<Rightarrow>
               if 0 < n then Inr (st', drop n ts)
               else
                 (case dropWhile (\<lambda>t. \<not> is_opt t) ts of
                    OptTok arg_string t # following \<Rightarrow>
                      (case consume_optional sub p
                              (st'\<lparr>extras := extras st'
                                      @ map arg_string_of (takeWhile (\<lambda>t. \<not> is_opt t) ts)\<rparr>)
                              arg_string t following of
                         Inl e \<Rightarrow> Inl e
                       | Inr (st'', m) \<Rightarrow> Inr (st'', drop m following))
                  | _ \<Rightarrow> Inr (st', []))))"

lemma parse_step_shorter:
  assumes "parse_step sub p st ts = Inr (st', ts')" and "list_ex is_opt ts"
  shows "length ts' < length ts"
proof (cases ts)
  case Nil
  with assms(2) show ?thesis by simp
next
  case (Cons t following)
  have dw: "length (dropWhile (\<lambda>t. \<not> is_opt t) ts) \<le> length ts"
    by (rule length_dropWhile_le)
  show ?thesis
  proof (cases t)
    case (OptTok s tup)
    with Cons assms(1) show ?thesis
      by (auto simp: parse_step_def split: sum.splits)
  next
    case (ArgTok s)
    with Cons assms(1) dw show ?thesis
      by (auto simp: parse_step_def split: sum.splits if_splits list.splits tok.splits)
  next
    case DashTok
    with Cons assms(1) dw show ?thesis
      by (auto simp: parse_step_def split: sum.splits if_splits list.splits tok.splits)
  qed
qed

text \<open>The loop runs while an option is left; then the positionals after the last option
  are consumed and the strings left over become extras.\<close>

function parse_loop ::
  "subparse \<Rightarrow> parser \<Rightarrow> pstate \<Rightarrow> tok list \<Rightarrow> parser_exit + pstate" where
  "parse_loop sub p st ts =
     (if list_ex is_opt ts then
        (case parse_step sub p st ts of
           Inl e \<Rightarrow> Inl e
         | Inr (st', ts') \<Rightarrow> parse_loop sub p st' ts')
      else
        (case consume_positionals sub p st ts of
           Inl e \<Rightarrow> Inl e
         | Inr (st', n) \<Rightarrow> Inr (st'\<lparr>extras := extras st' @ map arg_string_of (drop n ts)\<rparr>)))"
  by pat_completeness auto
termination
  by (relation "measure (\<lambda>(sub, p, st, ts). length ts)") (auto dest: parse_step_shorter)

declare parse_loop.simps [simp del]

subsection \<open>\<^verbatim>\<open>parse_known_args\<close> and \<^verbatim>\<open>parse_args\<close>\<close>

text \<open>The namespace before parsing: the defaults of the actions, then those of
  \<^verbatim>\<open>set_defaults\<close>, each only if the attribute is not there yet.\<close>

definition set_if_absent :: "string \<Rightarrow> pyval \<Rightarrow> namespace \<Rightarrow> namespace" where
  "set_if_absent k v m = (if m k = None then m(k \<mapsto> v) else m)"

definition initial_namespace :: "parser \<Rightarrow> namespace" where
  "initial_namespace p =
     fold (\<lambda>(k, v). set_if_absent k v) (defaults p)
       (fold (\<lambda>a m. case (dest a, default a) of
                      (Some k, Some v) \<Rightarrow> set_if_absent k v m
                    | _ \<Rightarrow> m)
          (actions p) Map.empty)"

definition initial_state :: "parser \<Rightarrow> pstate" where
  "initial_state p =
     \<lparr>ns = initial_namespace p, seen_actions = [], seen_non_default_actions = [],
      extras = [], positionals = filter (\<lambda>a. option_strings a = []) (actions p),
      unrecognized = []\<rparr>"

definition required_actions :: "parser \<Rightarrow> pstate \<Rightarrow> string list" where
  "required_actions p st =
     map get_action_name
       (filter (\<lambda>a. get_action_name a \<notin> set (seen_actions st) \<and> required a) (actions p))"

definition parse_known_args ::
  "subparse \<Rightarrow> parser \<Rightarrow> string list \<Rightarrow> parser_exit + (namespace \<times> string list)" where
  "parse_known_args sub p args =
     (case classify p args of
        Inl err \<Rightarrow> Inl (UsageError (prog p) err)
      | Inr ts \<Rightarrow>
          (case parse_loop sub p (initial_state p) ts of
             Inl e \<Rightarrow> Inl e
           | Inr st \<Rightarrow>
               if required_actions p st \<noteq> [] then
                 Inl (UsageError (prog p) (RequiredArguments (required_actions p st)))
               else Inr (ns st, extras st @ unrecognized st)))"

text \<open>A parser without subparsers never calls its \<open>subparse\<close>.\<close>

definition no_subparsers :: subparse where
  "no_subparsers parser_name args = Inl (UncaughtException ''KeyError'')"

text \<open>\<^verbatim>\<open>_SubParsersAction.__call__\<close>: select the parser by name and let it parse the
  remaining argument strings into a namespace of its own.\<close>

definition call_subparser :: subparse where
  "call_subparser parser_name arg_strings =
     (case map_of registered_subparsers parser_name of
        None \<Rightarrow> Inl (UsageError ''manubot'' (UnknownParser parser_name))
      | Some subparser \<Rightarrow> parse_known_args no_subparsers subparser arg_strings)"

definition parse_args :: "parser \<Rightarrow> string list \<Rightarrow> parser_exit + namespace" where
  "parse_args p args =
     (case parse_known_args call_subparser p args of
        Inl e \<Rightarrow> Inl e
      | Inr (namespace, argv) \<Rightarrow>
          if argv \<noteq> [] then Inl (UsageError (prog p) (UnrecognizedArguments argv))
          else Inr namespace)"

text \<open>\<^verbatim>\<open>parse_arguments\<close> of the module; \<open>argv\<close> is \<^verbatim>\<open>sys.argv[1:]\<close>.\<close>

definition parse_arguments :: "string \<Rightarrow> string list \<Rightarrow> parser_exit + namespace" where
  "parse_arguments manubot_version argv = parse_args (top_parser manubot_version) argv"

section \<open>Logging\<close>

text \<open>
  The levels of \<^verbatim>\<open>logging\<close> are integers. \<^verbatim>\<open>getattr(logging, name)\<close> on the five
  names \<^verbatim>\<open>--log-level\<close> accepts gives the five constants; any other name is taken
  to have no level attribute.
\<close>

definition DEBUG :: int where "DEBUG = 10"
definition INFO :: int where "INFO = 20"
definition WARNING :: int where "WARNING = 30"
definition ERROR :: int where "ERROR = 40"
definition CRITICAL :: int where "CRITICAL = 50"
definition NOTSET :: int where "NOTSET = 0"

definition logging_attr :: "string \<Rightarrow> int option" where
  "logging_attr name =
     (if name = ''DEBUG'' then Some DEBUG
      else if name = ''INFO'' then Some INFO
      else if name = ''WARNING'' then Some WARNING
      else if name = ''ERROR'' then Some ERROR
      else if name = ''CRITICAL'' then Some CRITICAL
      else None)"

fun str_nat :: "nat \<Rightarrow> string" where
  "str_nat n =
     (if n < 10 then [''0123456789'' ! n]
      else str_nat (n div 10) @ [''0123456789'' ! (n mod 10)])"

definition str_int :: "int \<Rightarrow> string" where
  "str_int i = (if i < 0 then CHR ''-'' # str_nat (nat (- i)) else str_nat (nat i))"

text \<open>\<^verbatim>\<open>logging.getLevelName\<close> on an integer level.\<close>

definition getLevelName :: "int \<Rightarrow> string" where
  "getLevelName level =
     (if level = CRITICAL then ''CRITICAL''
      else if level = ERROR then ''ERROR''
      else if level = WARNING then ''WARNING''
      else if level = INFO then ''INFO''
      else if level = DEBUG then ''DEBUG''
      else if level = NOTSET then ''NOTSET''
      else ''Level '' @ str_int level)"

text \<open>A log record, as far as the formatter of this module reads it: the level and the
  message (records carry no exception or stack information here).\<close>

record log_record =
  levelno :: int
  message :: string

text \<open>A \<^verbatim>\<open>{\<close>-style format string, cut at its fields.\<close>

datatype format_piece = Literal string | LevelnameField | MessageField

fun format_field :: "log_record \<Rightarrow> format_piece \<Rightarrow> string" where
  "format_field r (Literal s) = s"
| "format_field r LevelnameField = getLevelName (levelno r)"
| "format_field r MessageField = message r"

definition format_record :: "format_piece list \<Rightarrow> log_record \<Rightarrow> string" where
  "format_record fmt r = concat (map (format_field r) fmt)"

text \<open>The two kinds of handler on the root logger: the \<^verbatim>\<open>errorhandler.ErrorHandler\<close>
  with its level, and a \<^verbatim>\<open>StreamHandler\<close> on \<^verbatim>\<open>sys.stderr\<close> with its level and
  format.\<close>

datatype log_handler = ErrorHandler int | StreamHandler int "format_piece list"

fun handler_level :: "log_handler \<Rightarrow> int" where
  "handler_level (ErrorHandler l) = l"
| "handler_level (StreamHandler l _) = l"

text \<open>What a run does, in order; the trace is appended to by each operation below.\<close>

datatype event =
    AddHandler log_handler
  | ParseArguments "string list"
  | ArgumentsParsed
  | SetLevel int
  | ImportFunction string
  | CallHandler string
  | LogCall int string
  | HandlerReturned
  | ReadFired bool

text \<open>
  The part of the process the module touches: the root logger (level and handlers), the
  \<^verbatim>\<open>fired\<close> attribute of the error handler, the warnings configuration, what has
  been written to \<^verbatim>\<open>sys.stderr\<close> through logging, and the trace. A new process has
  the root logger at \<^verbatim>\<open>WARNING\<close> without handlers.
\<close>

record world =
  root_level :: int
  root_handlers :: "log_handler list"
  fired :: bool
  always_deprecation_warnings :: bool
  capture_warnings :: bool
  stderr :: "string list"
  trace :: "event list"

definition initial_world :: world where
  "initial_world =
     \<lparr>root_level = WARNING, root_handlers = [], fired = False,
      always_deprecation_warnings = False, capture_warnings = False, stderr = [],
      trace = []\<rparr>"

definition addHandler :: "log_handler \<Rightarrow> world \<Rightarrow> world" where
  "addHandler h w = w\<lparr>root_handlers := root_handlers w @ [h], trace := trace w @ [AddHandler h]\<rparr>"

definition setLevel :: "int \<Rightarrow> world \<Rightarrow> world" where
  "setLevel level w = w\<lparr>root_level := level, trace := trace w @ [SetLevel level]\<rparr>"

text \<open>\<^verbatim>\<open>Handler.handle\<close>: the error handler sets \<^verbatim>\<open>fired\<close>; the stream handler
  writes the formatted record and a newline.\<close>

fun emit :: "log_record \<Rightarrow> log_handler \<Rightarrow> world \<Rightarrow> world" where
  "emit r (ErrorHandler _) w = w\<lparr>fired := True\<rparr>"
| "emit r (StreamHandler _ fmt) w = w\<lparr>stderr := stderr w @ [format_record fmt r @ [CHR 0x0A]]\<rparr>"

definition callHandlers :: "log_record \<Rightarrow> world \<Rightarrow> world" where
  "callHandlers r w =
     fold (\<lambda>hdlr w'. if levelno r \<ge> handler_level hdlr then emit r hdlr w' else w')
       (root_handlers w) w"

text \<open>
  \<^verbatim>\<open>Logger.log\<close> on the root logger, or on a logger that inherits the root's level and
  propagates to it (what \<^verbatim>\<open>logging.getLogger(name)\<close> gives): the record is dropped unless
  \<^verbatim>\<open>isEnabledFor(level)\<close>, that is unless the level is above \<^verbatim>\<open>manager.disable\<close>
  (0) and at least the root's level.
\<close>

definition isEnabledFor :: "world \<Rightarrow> int \<Rightarrow> bool" where
  "isEnabledFor w level = (if 0 \<ge> level then False else level \<ge> root_level w)"

definition log :: "int \<Rightarrow> string \<Rightarrow> world \<Rightarrow> world" where
  "log level msg w =
     (let w' = w\<lparr>trace := trace w @ [LogCall level msg]\<rparr> in
      if isEnabledFor w' level then callHandlers \<lparr>levelno = level, message = msg\<rparr> w' else w')"

section \<open>Handlers and their resolution\<close>

text \<open>
  A subcommand's handler is code outside this module. Of a call, the module can observe
  what the handler logs, in order, and whether it returns or raises. A warning that
  passes the warnings filters is written by \<^verbatim>\<open>warnings\<close> itself unless warnings are
  captured; captured, it is a \<^verbatim>\<open>WARNING\<close> record of the logger \<^verbatim>\<open>py.warnings\<close>.
  A handler is taken to log through loggers that inherit the root's level, and not to
  reconfigure logging.
\<close>

datatype py_exception = ParserExit parser_exit | SystemExit int | Exception string

datatype emission = Log int string | Warn string

datatype completion = Returns | Raises py_exception

record behaviour =
  emissions :: "emission list"
  outcome :: completion

type_synonym handler = "namespace \<Rightarrow> behaviour"

fun perform :: "emission \<Rightarrow> world \<Rightarrow> world" where
  "perform (Log level msg) w = log level msg w"
| "perform (Warn text) w = (if capture_warnings w then log WARNING text w else w)"

text \<open>\<^verbatim>\<open>manubot.util.import_function\<close> is not part of this module: it is a parameter of
  \<open>main\<close>, a function from the handler's dotted name to the handler or to the exception
  the import raises.\<close>

type_synonym importer = "string \<Rightarrow> py_exception + handler"

section \<open>The module's own functions\<close>

definition format_string :: "format_piece list" where
  "format_string = [Literal ''## '', LevelnameField, Literal [CHR 0x0A], MessageField]"

text \<open>\<^verbatim>\<open>setup_logging_and_errors\<close>: the \<^verbatim>\<open>ErrorHandler()\<close> constructor installs the
  handler on the root logger at level \<^verbatim>\<open>ERROR\<close>; then the warnings configuration; then
  the stream handler (level \<^verbatim>\<open>NOTSET\<close>) with the module's format.\<close>

definition setup_logging_and_errors :: "world \<Rightarrow> world" where
  "setup_logging_and_errors w =
     (let w1 = addHandler (ErrorHandler ERROR) (w\<lparr>fired := False\<rparr>);
          w2 = w1\<lparr>always_deprecation_warnings := True\<rparr>;
          w3 = w2\<lparr>capture_warnings := True\<rparr>
      in addHandler (StreamHandler NOTSET format_string) w3)"

text \<open>\<^verbatim>\<open>exit_if_error_handler_fired\<close>: reads \<^verbatim>\<open>fired\<close>; if it is set, logs the
  summary through \<^verbatim>\<open>logging.critical\<close> (the root logger) and raises
  \<^verbatim>\<open>SystemExit(1)\<close>.\<close>

definition exit_if_error_handler_fired :: "world \<Rightarrow> world \<times> completion" where
  "exit_if_error_handler_fired w =
     (let w' = w\<lparr>trace := trace w @ [ReadFired (fired w)]\<rparr> in
      if fired w' then
        (log CRITICAL ''Failure: exiting with code 1 due to logged errors'' w',
         Raises (SystemExit 1))
      else (w', Returns))"

text \<open>Calling the handler: its emissions in order, then its completion.\<close>

definition call_handler :: "string \<Rightarrow> handler \<Rightarrow> namespace \<Rightarrow> world \<Rightarrow> world \<times> completion" where
  "call_handler name function args w =
     (let w1 = fold perform (emissions (function args)) (w\<lparr>trace := trace w @ [CallHandler name]\<rparr>)
      in case outcome (function args) of
           Returns \<Rightarrow> (w1\<lparr>trace := trace w1 @ [HandlerReturned]\<rparr>, Returns)
         | Raises e \<Rightarrow> (w1, Raises e))"

text \<open>
  \<^verbatim>\<open>main\<close>, statement by statement. An attribute the namespace does not have, or a
  level name \<^verbatim>\<open>logging\<close> does not have, raises \<^verbatim>\<open>AttributeError\<close>.
\<close>

definition main :: "string \<Rightarrow> importer \<Rightarrow> string list \<Rightarrow> world \<Rightarrow> world \<times> completion" where
  "main manubot_version import_function argv w0 =
     (let diagnostics = setup_logging_and_errors w0;
          w1 = diagnostics\<lparr>trace := trace diagnostics @ [ParseArguments argv]\<rparr>
      in case parse_arguments manubot_version argv of
           Inl e \<Rightarrow> (w1, Raises (ParserExit e))
         | Inr args \<Rightarrow>
             (let w2 = w1\<lparr>trace := trace w1 @ [ArgumentsParsed]\<rparr> in
              case args ''log_level'' of
                Some (PStr name) \<Rightarrow>
                  (case logging_attr name of
                     None \<Rightarrow> (w2, Raises (Exception ''AttributeError''))
                   | Some level \<Rightarrow>
                       (let w3 = setLevel level w2 in
                        case args ''function'' of
                          Some (PStr f) \<Rightarrow>
                            (case import_function f of
                               Inl e \<Rightarrow> (w3\<lparr>trace := trace w3 @ [ImportFunction f]\<rparr>, Raises e)
                             | Inr function \<Rightarrow>
                                 (case call_handler f function args
                                         (w3\<lparr>trace := trace w3 @ [ImportFunction f]\<rparr>) of
                                    (w4, Returns) \<Rightarrow> exit_if_error_handler_fired w4
                                  | (w4, Raises e) \<Rightarrow> (w4, Raises e)))
                        | _ \<Rightarrow> (w3, Raises (Exception ''AttributeError''))))
              | _ \<Rightarrow> (w2, Raises (Exception ''AttributeError''))))"

text \<open>
  The exit status of the process: the console script calls \<^verbatim>\<open>sys.exit(main())\<close>, so a
  return is status 0; \<^verbatim>\<open>SystemExit(n)\<close> is status \<open>n\<close>; any other exception is
  status 1.
\<close>

fun exit_status :: "completion \<Rightarrow> int" where
  "exit_status Returns = 0"
| "exit_status (Raises (ParserExit e)) = exit_code e"
| "exit_status (Raises (SystemExit n)) = n"
| "exit_status (Raises (Exception _)) = 1"

section \<open>Reading a run\<close>

text \<open>
  Auxiliary notions for stating properties of \<open>main\<close>: kinds of events, the order of
  events in a trace, the log calls a handler's emissions amount to once warnings are
  captured, and the run in which the handler is called, written out.
\<close>

fun is_parse :: "event \<Rightarrow> bool" where
  "is_parse (ParseArguments _) = True"
| "is_parse _ = False"

fun is_add :: "event \<Rightarrow> bool" where
  "is_add (AddHandler _) = True"
| "is_add _ = False"

fun is_call :: "event \<Rightarrow> bool" where
  "is_call (CallHandler _) = True"
| "is_call _ = False"

fun is_import :: "event \<Rightarrow> bool" where
  "is_import (ImportFunction _) = True"
| "is_import _ = False"


fun is_log_call :: "event \<Rightarrow> bool" where
  "is_log_call (LogCall _ _) = True"
| "is_log_call _ = False"


fun preceded_by :: "(event \<Rightarrow> bool) \<Rightarrow> (event \<Rightarrow> bool) \<Rightarrow> event list \<Rightarrow> bool" where
  "preceded_by P Q [] = True"
| "preceded_by P Q (e # es) = (P e \<or> (\<not> Q e \<and> preceded_by P Q es))"

fun call_of :: "emission \<Rightarrow> int \<times> string" where
  "call_of (Log level msg) = (level, msg)"
| "call_of (Warn text) = (WARNING, text)"

definition enabled :: "int \<Rightarrow> int \<times> string \<Rightarrow> bool" where
  "enabled threshold c = (0 < fst c \<and> threshold \<le> fst c)"

definition fires :: "int \<Rightarrow> int \<times> string \<Rightarrow> bool" where
  "fires threshold c = (enabled threshold c \<and> ERROR \<le> fst c)"

definition block :: "int \<Rightarrow> string \<Rightarrow> string" where
  "block level msg = ''## '' @ getLevelName level @ [CHR 0x0A] @ msg @ [CHR 0x0A]"

definition summary :: string where
  "summary = ''Failure: exiting with code 1 due to logged errors''"

definition configured :: "world \<Rightarrow> bool" where
  "configured w =
     (root_handlers w = [ErrorHandler ERROR, StreamHandler NOTSET format_string]
      \<and> capture_warnings w)"

definition dispatch ::
  "string \<Rightarrow> importer \<Rightarrow> string list \<Rightarrow> (namespace \<times> int \<times> string \<times> handler) option" where
  "dispatch v imp argv =
     (case parse_arguments v argv of
        Inl _ \<Rightarrow> None
      | Inr args \<Rightarrow>
          (case args ''log_level'' of
             Some (PStr name) \<Rightarrow>
               (case logging_attr name of
                  None \<Rightarrow> None
                | Some level \<Rightarrow>
                    (case args ''function'' of
                       Some (PStr f) \<Rightarrow>
                         (case imp f of Inl _ \<Rightarrow> None | Inr h \<Rightarrow> Some (args, level, f, h))
                     | _ \<Rightarrow> None))
           | _ \<Rightarrow> None))"

definition dispatched_world :: "string list \<Rightarrow> int \<Rightarrow> string \<Rightarrow> (int \<times> string) list \<Rightarrow> world" where
  "dispatched_world argv level f calls =
     \<lparr>root_level = level,
      root_handlers = [ErrorHandler ERROR, StreamHandler NOTSET format_string],
      fired = list_ex (fires level) calls,
      always_deprecation_warnings = True, capture_warnings = True,
      stderr = map (\<lambda>c. block (fst c) (snd c)) (filter (enabled level) calls),
      trace = [AddHandler (ErrorHandler ERROR), AddHandler (StreamHandler NOTSET format_string),
               ParseArguments argv, ArgumentsParsed, SetLevel level, ImportFunction f,
               CallHandler f] @ map (\<lambda>c. LogCall (fst c) (snd c)) calls\<rparr>"

definition base_trace :: "string list \<Rightarrow> event list" where
  "base_trace argv =
     [AddHandler (ErrorHandler ERROR), AddHandler (StreamHandler NOTSET format_string),
      ParseArguments argv]"

fun is_set_level :: "event \<Rightarrow> bool" where
  "is_set_level (SetLevel _) = True"
| "is_set_level _ = False"


fun at_least :: "int \<Rightarrow> event \<Rightarrow> bool" where
  "at_least threshold (LogCall level _) = (threshold \<le> level)"
| "at_least threshold _ = False"

text \<open>The action of an option token, and the actions a parser reaches through its
  option strings.\<close>

fun tok_action :: "tok \<Rightarrow> action option" where
  "tok_action (OptTok s (a, option_string, sep, explicit_arg)) = a"
| "tok_action _ = None"

definition option_actions :: "parser \<Rightarrow> action set" where
  "option_actions p = snd ` set (option_string_actions p)"

definition toks_in :: "action set \<Rightarrow> tok list \<Rightarrow> bool" where
  "toks_in A ts = list_all (\<lambda>t. case tok_action t of None \<Rightarrow> True | Some a \<Rightarrow> a \<in> A) ts"

definition shorts_in :: "parser \<Rightarrow> action set \<Rightarrow> bool" where
  "shorts_in p A = list_all (\<lambda>(s, a). a \<in> A \<or> length s \<noteq> 2) (option_string_actions p)"

text \<open>An option that takes exactly one argument is taken with exactly one argument
  string.\<close>

definition arity_ok :: "action \<Rightarrow> string list \<Rightarrow> bool" where
  "arity_ok a args = (length args = 1 \<or> option_strings a = [] \<or> nargs a \<noteq> NargsNone)"

definition preserves :: "subparse \<Rightarrow> parser \<Rightarrow> action set \<Rightarrow> (pstate \<Rightarrow> bool) \<Rightarrow> bool" where
  "preserves sub p A I =
     ((\<forall>st a args st'. I st \<longrightarrow> a \<in> A \<longrightarrow> arity_ok a args
          \<longrightarrow> take_action sub p st a args = Inr st' \<longrightarrow> I st')
      \<and> (\<forall>st xs. I st \<longrightarrow> I (st\<lparr>extras := extras st @ xs\<rparr>))
      \<and> (\<forall>st ps. I st \<longrightarrow> I (st\<lparr>positionals := ps\<rparr>)))"

text \<open>The registered subparser of a name.\<close>

definition subparser :: "string \<Rightarrow> parser" where
  "subparser name =
     (case map_of registered_subparsers name of Some sp \<Rightarrow> sp | None \<Rightarrow> new_parser [])"



text \<open>Checks on a subparser, each decided by evaluation on the registry.\<close>

definition leaf_parser :: "parser \<Rightarrow> bool" where
  "leaf_parser p =
     list_all (\<lambda>a. kind a \<noteq> SubParsersAction \<and> nargs a \<noteq> NargsParser
                   \<and> dest a \<noteq> Some ''function'' \<and> dest a \<noteq> Some ''subcommand'')
       (actions p)"

definition only_options :: "string list \<Rightarrow> string \<Rightarrow> parser \<Rightarrow> bool" where
  "only_options names d p =
     (list_all (\<lambda>a. get_action_name a \<in> set names \<or> dest a \<noteq> Some d) (actions p)
      \<and> list_all (\<lambda>(s, a). get_action_name a \<notin> set names \<or> 2 < length s)
            (option_string_actions p)
      \<and> \<not> list_ex (\<lambda>a. option_strings a = [] \<and> get_action_name a \<in> set names) (actions p))"

definition has_log_level :: "parser \<Rightarrow> bool" where
  "has_log_level p =
     (list_all (\<lambda>a. get_action_name a \<noteq> ''--log-level''
                   \<or> (kind a = Store \<and> nargs a = NargsNone \<and> atype a = TypeStr
                       \<and> choices a = Some log_levels \<and> dest a = Some ''log_level''
                       \<and> default a = Some (PStr ''WARNING'') \<and> option_strings a = [''--log-level'']))
        (actions p)
      \<and> list_ex (\<lambda>a. get_action_name a = ''--log-level'') (actions p)
      \<and> only_options [''--log-level''] ''log_level'' p)"



definition failing_handler :: handler where
  "failing_handler args = \<lparr>emissions = [Log ERROR ''boom''], outcome = Returns\<rparr>"

section \<open>Lemmas on logging and on a run\<close>

lemma setup_configured: "root_handlers w = [] \<Longrightarrow> configured (setup_logging_and_errors w)"
  by (simp add: configured_def setup_logging_and_errors_def addHandler_def Let_def)

lemma log_configured:
  assumes "configured w"
  shows "log level msg w =
         w\<lparr>fired := fired w \<or> fires (root_level w) (level, msg),
           stderr := stderr w @ map (\<lambda>c. block (fst c) (snd c)) (filter (enabled (root_level w)) [(level, msg)]),
           trace := trace w @ [LogCall level msg]\<rparr>"
  using assms
  by (auto simp: configured_def log_def Let_def isEnabledFor_def callHandlers_def enabled_def
      fires_def block_def format_record_def format_string_def NOTSET_def)

lemma perform_configured:
  assumes "configured w"
  shows "perform e w =
         w\<lparr>fired := fired w \<or> fires (root_level w) (call_of e),
           stderr := stderr w @ map (\<lambda>c. block (fst c) (snd c)) (filter (enabled (root_level w)) [call_of e]),
           trace := trace w @ [LogCall (fst (call_of e)) (snd (call_of e))]\<rparr>"
proof (cases e)
  case (Log level msg)
  then show ?thesis using log_configured [OF assms] by simp
next
  case (Warn warning)
  then show ?thesis using log_configured [OF assms] assms by (simp add: configured_def)
qed

lemma fold_perform_configured:
  assumes "configured w"
  shows "fold perform es w =
         w\<lparr>fired := fired w \<or> list_ex (fires (root_level w)) (map call_of es),
           stderr := stderr w @ map (\<lambda>c. block (fst c) (snd c)) (filter (enabled (root_level w)) (map call_of es)),
           trace := trace w @ map (\<lambda>c. LogCall (fst c) (snd c)) (map call_of es)\<rparr>"
  using assms
proof (induction es arbitrary: w)
  case Nil
  then show ?case by simp
next
  case (Cons e es)
  let ?w = "perform e w"
  have c: "configured ?w"
    using Cons.prems by (simp add: perform_configured) (simp add: configured_def)
  have r: "root_level ?w = root_level w"
    using Cons.prems by (simp add: perform_configured)
  show ?case
    using Cons.IH [OF c] Cons.prems r
    by (simp add: perform_configured) 
qed

lemma configured_trace [simp]: "configured (w\<lparr>trace := t\<rparr>) = configured w"
  by (simp add: configured_def)

lemma configured_setLevel [simp]: "configured (setLevel level w) = configured w"
  by (simp add: configured_def setLevel_def)

lemma configured_initial: "configured (setup_logging_and_errors initial_world)"
  by (rule setup_configured) (simp add: initial_world_def)

lemma logging_attr_range: "logging_attr name = Some level \<Longrightarrow> 0 < level \<and> level \<le> CRITICAL"
  by (auto simp: logging_attr_def DEBUG_def INFO_def WARNING_def ERROR_def CRITICAL_def
      split: if_splits)

lemma call_handler_configured:
  assumes "configured w"
  shows "call_handler f h args w =
         (let calls = map call_of (emissions (h args));
              w1 = w\<lparr>fired := fired w \<or> list_ex (fires (root_level w)) calls,
                     stderr := stderr w @ map (\<lambda>c. block (fst c) (snd c))
                                            (filter (enabled (root_level w)) calls),
                     trace := trace w @ CallHandler f # map (\<lambda>c. LogCall (fst c) (snd c)) calls\<rparr>
          in case outcome (h args) of
               Returns \<Rightarrow> (w1\<lparr>trace := trace w1 @ [HandlerReturned]\<rparr>, Returns)
             | Raises e \<Rightarrow> (w1, Raises e))"
  using assms
  by (simp add: call_handler_def Let_def fold_perform_configured split: completion.splits)

lemma dispatchD:
  assumes "dispatch v imp argv = Some (args, level, f, h)"
  shows "parse_arguments v argv = Inr args"
    and "\<exists>name. args ''log_level'' = Some (PStr name) \<and> logging_attr name = Some level"
    and "args ''function'' = Some (PStr f)" and "imp f = Inr h"
  using assms
  by (auto simp: dispatch_def split: sum.splits option.splits pyval.splits)

lemma main_dispatched:
  assumes "dispatch v imp argv = Some (args, level, f, h)"
  shows "main v imp argv initial_world =
         (let w = dispatched_world argv level f (map call_of (emissions (h args))) in
          case outcome (h args) of
            Raises e \<Rightarrow> (w, Raises e)
          | Returns \<Rightarrow>
              if fired w then
                (w\<lparr>stderr := stderr w @ [block CRITICAL summary],
                   trace := trace w @ [HandlerReturned, ReadFired True, LogCall CRITICAL summary]\<rparr>,
                 Raises (SystemExit 1))
              else (w\<lparr>trace := trace w @ [HandlerReturned, ReadFired False]\<rparr>, Returns))"
proof -
  obtain name where n: "args ''log_level'' = Some (PStr name)" "logging_attr name = Some level"
    using dispatchD(2) [OF assms] by blast
  note p = dispatchD(1) [OF assms] and fn = dispatchD(3) [OF assms] and i = dispatchD(4) [OF assms]
  have lv: "0 < level" "level \<le> CRITICAL"
    using logging_attr_range [OF n(2)] by simp_all
  have cr: "fires level (CRITICAL, summary)" "enabled level (CRITICAL, summary)"
    using lv by (simp_all add: fires_def enabled_def ERROR_def CRITICAL_def)
  show ?thesis
    using cr
    by (cases "outcome (h args)")
      (simp_all add: main_def Let_def p n fn i call_handler_configured configured_def
        exit_if_error_handler_fired_def log_configured dispatched_world_def summary_def
        setLevel_def setup_logging_and_errors_def addHandler_def initial_world_def)
qed

lemma main_undispatched:
  assumes "dispatch v imp argv = None"
  shows "\<exists>t e. trace (fst (main v imp argv initial_world)) = base_trace argv @ t
           \<and> (t = [] \<or> t = [ArgumentsParsed] \<or> (\<exists>l. t = [ArgumentsParsed, SetLevel l])
               \<or> (\<exists>l f. t = [ArgumentsParsed, SetLevel l, ImportFunction f]))
           \<and> stderr (fst (main v imp argv initial_world)) = []
           \<and> snd (main v imp argv initial_world) = Raises e"
  using assms
  by (auto simp: dispatch_def main_def Let_def base_trace_def setLevel_def
      setup_logging_and_errors_def addHandler_def initial_world_def
      split: sum.splits option.splits pyval.splits)

lemma preceded_by_skip:
  "list_all (\<lambda>e. \<not> P e \<and> \<not> Q e) xs \<Longrightarrow> preceded_by P Q (xs @ ys) = preceded_by P Q ys"
  by (induction xs) auto

lemma preceded_by_none: "list_all (\<lambda>e. \<not> Q e) xs \<Longrightarrow> preceded_by P Q xs"
  by (induction xs) auto

lemma list_all_log_calls: "list_all is_log_call (map (\<lambda>c. LogCall (fst c) (snd c)) cs)"
  by (induction cs) auto



section \<open>Lemmas on the parser\<close>

lemma classify_strings: "classify p args = Inr ts \<Longrightarrow> map arg_string_of ts = args"
proof (induction args arbitrary: ts)
  case Nil
  then show ?case by simp
next
  case (Cons s ss)
  then show ?case
    by (auto simp: comp_def split: if_splits sum.splits option.splits)
qed

lemma option_actions_subset: "option_actions p \<subseteq> set (actions p)"
  by (auto simp: option_actions_def option_string_actions_def)


lemma map_of_option_actions:
  "map_of (option_string_actions p) s = Some a \<Longrightarrow> a \<in> option_actions p"
  by (auto simp: option_actions_def dest!: map_of_SomeD intro: rev_image_eqI)

lemma get_option_tuples_actions:
  "(Some a, os, sep, ex) \<in> set (get_option_tuples p s) \<Longrightarrow> a \<in> option_actions p"
  by (auto simp: get_option_tuples_def option_actions_def split: if_splits prod.splits
      intro: rev_image_eqI)

lemma get_option_tuples_known:
  "(a, os, sep, ex) \<in> set (get_option_tuples p s) \<Longrightarrow> a \<noteq> None"
  by (auto simp: get_option_tuples_def split: if_splits prod.splits)

lemma parse_optional_actions:
  assumes "parse_optional p s = Inr (Some (Some a, os, sep, ex))"
  shows "a \<in> option_actions p"
proof -
  have "(\<exists>k. map_of (option_string_actions p) k = Some a)
        \<or> (Some a, os, sep, ex) \<in> set (get_option_tuples p s)"
    using assms
    by (auto simp: parse_optional_def split: if_splits option.splits prod.splits list.splits)
  then show ?thesis
    using map_of_option_actions get_option_tuples_actions by blast
qed

lemma classify_actions:
  "classify p args = Inr ts \<Longrightarrow> t \<in> set ts \<Longrightarrow> tok_action t = Some a \<Longrightarrow> a \<in> option_actions p"
proof (induction args arbitrary: ts)
  case Nil
  then show ?case by simp
next
  case (Cons s ss)
  show ?case
  proof (cases "s = ''--''")
    case True
    with Cons.prems show ?thesis by auto
  next
    case False
    with Cons.prems obtain c ts' where c: "parse_optional p s = Inr c" "classify p ss = Inr ts'"
      "ts = (case c of None \<Rightarrow> ArgTok s | Some t \<Rightarrow> OptTok s t) # ts'"
      by (auto split: sum.splits)
    show ?thesis
    proof (cases "t \<in> set ts'")
      case True
      with Cons.IH [OF c(2)] Cons.prems(3) show ?thesis by simp
    next
      case False
      with Cons.prems(2) c(3) have t: "t = (case c of None \<Rightarrow> ArgTok s | Some t \<Rightarrow> OptTok s t)"
        by simp
      with Cons.prems(3) obtain os sep ex where "c = Some (Some a, os, sep, ex)"
        by (cases c) (auto split: prod.splits)
      with c(1) parse_optional_actions show ?thesis by simp
    qed
  qed
qed







lemma toks_in_drop: "toks_in A ts \<Longrightarrow> toks_in A (drop k ts)"
  by (auto simp: toks_in_def list_all_iff dest: in_set_dropD)

lemma toks_in_dropWhile: "toks_in A ts \<Longrightarrow> toks_in A (dropWhile P ts)"
  by (auto simp: toks_in_def list_all_iff dest: set_dropWhileD)

lemma toks_in_Cons:
  "toks_in A (OptTok s (Some a, os, sep, ex) # ts) = (a \<in> A \<and> toks_in A ts)"
  "toks_in A (OptTok s (None, os, sep, ex) # ts) = toks_in A ts"
  "toks_in A (ArgTok s # ts) = toks_in A ts"
  "toks_in A (DashTok # ts) = toks_in A ts"
  by (simp_all add: toks_in_def)

lemma call_action_frame:
  assumes "call_action sub p st a args v = Inr st'"
  shows "extras st' = extras st \<and> positionals st' = positionals st
         \<and> seen_actions st' = seen_actions st
         \<and> seen_non_default_actions st' = seen_non_default_actions st"
  using assms
  by (auto simp: call_action_def setattr_def
      split: act_kind.splits option.splits list.splits sum.splits)

lemma take_action_frame:
  assumes "take_action sub p st a args = Inr st'"
  shows "extras st' = extras st" and "positionals st' = positionals st"
    and "seen_actions st' = get_action_name a # seen_actions st"
    and "set (seen_non_default_actions st) \<subseteq> set (seen_non_default_actions st')"
  using assms
  by (auto simp: take_action_def Let_def split: sum.splits if_splits list.splits
      dest!: call_action_frame)

lemma action_tuples_in:
  assumes "action_tuples p following a os sep ex = Inr (tuples, xs, n)"
    and "a \<in> A" and "shorts_in p A"
  shows "list_all (\<lambda>t. fst t \<in> A) tuples"
  using assms
proof (induction p following a os sep ex arbitrary: tuples xs n rule: action_tuples.induct)
  case (1 p following a option_string sep)
  then show ?case
    by (auto split: sum.splits)
next
  case (2 p following a option_string sep explicit_arg)
  show ?case
  proof (cases "map_of (option_string_actions p) [hd option_string, hd explicit_arg]")
    case None
    with "2.prems" show ?thesis
      by (auto split: sum.splits if_splits)
  next
    case (Some a')
    then have "([hd option_string, hd explicit_arg], a') \<in> set (option_string_actions p)"
      by (rule map_of_SomeD)
    with "2.prems"(3) have a': "a' \<in> A"
      by (auto simp: shorts_in_def list_all_iff)
    from "2.prems"(1) Some "2.IH" [OF _ _ _ Some _ a' "2.prems"(3)] "2.prems"(2)
    show ?thesis
      by (auto split: sum.splits if_splits prod.splits)
  qed
qed

lemma action_tuples_arity:
  assumes "action_tuples p following a os sep ex = Inr (tuples, xs, n)"
  shows "list_all (\<lambda>t. arity_ok (fst t) (fst (snd t))) tuples"
  using assms
proof (induction p following a os sep ex arbitrary: tuples xs n rule: action_tuples.induct)
  case (1 p following a option_string sep)
  then show ?case
    by (cases following; cases "nargs a")
      (auto simp: arity_ok_def match_argument_def nargs_match_def
        split: sum.splits option.splits tok.splits if_splits)
next
  case (2 p following a option_string sep explicit_arg)
  have z: "arity_ok a []" if "match_argument a [ArgTok explicit_arg] = Inr 0"
    using that
    by (cases "nargs a")
      (auto simp: arity_ok_def match_argument_def nargs_match_def Let_def dashes_def
        split: option.splits if_splits)
  show ?case
  proof (cases "map_of (option_string_actions p) [hd option_string, hd explicit_arg]")
    case None
    with "2.prems" z show ?thesis
      by (auto simp: arity_ok_def split: sum.splits if_splits)
  next
    case (Some a')
    from "2.prems"(1) Some "2.IH" [OF _ _ _ Some] z
    show ?thesis
      by (auto simp: arity_ok_def split: sum.splits if_splits prod.splits)
  qed
qed

lemma take_actions_inv:
  assumes step: "\<And>st a args st'. I st \<Longrightarrow> a \<in> A \<Longrightarrow> arity_ok a args
                   \<Longrightarrow> take_action sub p st a args = Inr st' \<Longrightarrow> I st'"
    and "list_all (\<lambda>t. fst t \<in> A) tuples"
    and "list_all (\<lambda>t. arity_ok (fst t) (fst (snd t))) tuples" and "I st"
    and "take_actions sub p st tuples = Inr st'"
  shows "I st'"
  using assms(2-)
proof (induction tuples arbitrary: st)
  case Nil
  then show ?case by simp
next
  case (Cons t tuples)
  obtain a args os where t: "t = (a, args, os)"
    by (cases t) auto
  from Cons.prems t obtain st1 where st1: "take_action sub p st a args = Inr st1"
    "take_actions sub p st1 tuples = Inr st'"
    by (auto split: sum.splits)
  from Cons.prems(1,2) t have "a \<in> A" "list_all (\<lambda>t. fst t \<in> A) tuples"
    "arity_ok a args" "list_all (\<lambda>t. arity_ok (fst t) (fst (snd t))) tuples"
    by simp_all
  with step [OF Cons.prems(3) _ _ st1(1)] Cons.IH st1(2) show ?case
    by blast
qed

lemma take_actions_frame:
  assumes "take_actions sub p st tuples = Inr st'"
  shows "extras st' = extras st \<and> positionals st' = positionals st
         \<and> set (seen_actions st) \<subseteq> set (seen_actions st')
         \<and> set (seen_non_default_actions st) \<subseteq> set (seen_non_default_actions st')"
  using assms
proof (induction tuples arbitrary: st)
  case Nil
  then show ?case by simp
next
  case (Cons t tuples)
  obtain a args os where t: "t = (a, args, os)"
    by (cases t) auto
  from Cons.prems t obtain st1 where st1: "take_action sub p st a args = Inr st1"
    "take_actions sub p st1 tuples = Inr st'"
    by (auto split: sum.splits)
  from take_action_frame [OF st1(1)] Cons.IH [OF st1(2)] show ?case
    by auto
qed

lemma consume_optional_inv:
  assumes "preserves sub p A I" and "shorts_in p A" and "I st"
    and "case fst t of None \<Rightarrow> True | Some a \<Rightarrow> a \<in> A"
    and "consume_optional sub p st s t following = Inr (st', n)"
  shows "I st' \<and> positionals st' = positionals st"
proof (cases "fst t")
  case None
  with assms(1,3,5) show ?thesis
    by (cases t) (auto simp: consume_optional_def preserves_def)
next
  case (Some a)
  then obtain os sep ex where t: "t = (Some a, os, sep, ex)"
    by (cases t) auto
  with assms(5) obtain tuples xs where
    tu: "action_tuples p following a os sep ex = Inr (tuples, xs, n)"
    and ta: "take_actions sub p (st\<lparr>extras := extras st @ xs\<rparr>) tuples = Inr st'"
    by (auto simp: consume_optional_def split: sum.splits)
  from assms(4) Some have a: "a \<in> A" by simp
  have step: "\<And>st a args st'. I st \<Longrightarrow> a \<in> A \<Longrightarrow> arity_ok a args
                 \<Longrightarrow> take_action sub p st a args = Inr st' \<Longrightarrow> I st'"
    using assms(1) unfolding preserves_def by blast
  have i: "I (st\<lparr>extras := extras st @ xs\<rparr>)"
    using assms(1,3) unfolding preserves_def by blast
  from take_actions_inv [of I A sub p, OF step action_tuples_in [OF tu a assms(2)]
      action_tuples_arity [OF tu] i ta]
    take_actions_frame [OF ta]
  show ?thesis by simp
qed

lemma consume_positionals_inv:
  assumes "preserves sub p A I" and "I st" and "set (positionals st) \<subseteq> {a \<in> A. option_strings a = []}"
    and "consume_positionals sub p st ts = Inr (st', n)"
  shows "I st' \<and> set (positionals st') \<subseteq> {a \<in> A. option_strings a = []}"
proof (cases "positionals st")
  case Nil
  with assms show ?thesis
    by (simp add: consume_positionals_def)
next
  case (Cons a ps)
  show ?thesis
  proof (cases "nargs_match a ts")
    case None
    with Cons assms show ?thesis
      by (simp add: consume_positionals_def)
  next
    case (Some k)
    with Cons assms(4) obtain st1 where
      st1: "take_action sub p st a (map arg_string_of (take k ts)) = Inr st1"
      and st': "st' = st1\<lparr>positionals := tl (positionals st1)\<rparr>"
      by (auto simp: consume_positionals_def split: sum.splits)
    from Cons assms(3) have a: "a \<in> A" "arity_ok a (map arg_string_of (take k ts))"
      by (simp_all add: arity_ok_def)
    from assms(1,2) a st1 have "I st1"
      unfolding preserves_def by blast
    with assms(1) st' have "I st'"
      unfolding preserves_def by blast
    moreover from take_action_frame(2) [OF st1] st' assms(3) Cons
    have "set (positionals st') \<subseteq> {a \<in> A. option_strings a = []}" by auto
    ultimately show ?thesis by simp
  qed
qed

lemma parse_step_inv:
  assumes "preserves sub p A I" and "shorts_in p A" and "I st" and "toks_in A ts"
    and "set (positionals st) \<subseteq> {a \<in> A. option_strings a = []}"
    and "parse_step sub p st ts = Inr (st', ts')"
  shows "I st' \<and> set (positionals st') \<subseteq> {a \<in> A. option_strings a = []} \<and> toks_in A ts'"
proof -
  have opt: "I st2 \<and> set (positionals st2) \<subseteq> {a \<in> A. option_strings a = []} \<and> toks_in A (drop m following)"
    if "I st1" "set (positionals st1) \<subseteq> {a \<in> A. option_strings a = []}" "toks_in A (OptTok s t # following)"
      "consume_optional sub p st1 s t following = Inr (st2, m)"
    for st1 st2 s t following m
  proof -
    from that(3) have "case fst t of None \<Rightarrow> True | Some a \<Rightarrow> a \<in> A" "toks_in A following"
      by (cases t; cases "fst t"; simp add: toks_in_def)+
    with consume_optional_inv [OF assms(1,2) that(1) _ that(4)] that(2) toks_in_drop
    show ?thesis by simp
  qed
  show ?thesis
  proof (cases "\<exists>s t following. ts = OptTok s t # following")
    case True
    then obtain s t following where ts: "ts = OptTok s t # following"
      by blast
    with assms(6) obtain m where
      "consume_optional sub p st s t following = Inr (st', m)" "ts' = drop m following"
      by (auto simp: parse_step_def split: sum.splits)
    with opt [OF assms(3,5)] assms(4) ts show ?thesis
      by simp
  next
    case False
    then have "parse_step sub p st ts =
          (case consume_positionals sub p st ts of
             Inl e \<Rightarrow> Inl e
           | Inr (st', n) \<Rightarrow>
               if 0 < n then Inr (st', drop n ts)
               else
                 (case dropWhile (\<lambda>t. \<not> is_opt t) ts of
                    OptTok arg_string t # following \<Rightarrow>
                      (case consume_optional sub p
                              (st'\<lparr>extras := extras st'
                                      @ map arg_string_of (takeWhile (\<lambda>t. \<not> is_opt t) ts)\<rparr>)
                              arg_string t following of
                         Inl e \<Rightarrow> Inl e
                       | Inr (st'', m) \<Rightarrow> Inr (st'', drop m following))
                  | _ \<Rightarrow> Inr (st', [])))"
      by (auto simp: parse_step_def split: list.splits tok.splits)
    with assms(6) obtain st1 k where
        cp: "consume_positionals sub p st ts = Inr (st1, k)"
        and rest: "(if 0 < k then Inr (st1, drop k ts)
               else (case dropWhile (\<lambda>t. \<not> is_opt t) ts of
                    OptTok arg_string t # following \<Rightarrow>
                      (case consume_optional sub p
                              (st1\<lparr>extras := extras st1
                                      @ map arg_string_of (takeWhile (\<lambda>t. \<not> is_opt t) ts)\<rparr>)
                              arg_string t following of
                         Inl e \<Rightarrow> Inl e
                       | Inr (st'', m) \<Rightarrow> Inr (st'', drop m following))
                  | _ \<Rightarrow> Inr (st1, []))) = Inr (st', ts')"
      by (auto split: sum.splits)
      note i1 = consume_positionals_inv [OF assms(1,3,5) cp]
      show ?thesis
      proof (cases "0 < k")
        case True
        with rest i1 assms(4) toks_in_drop show ?thesis
          by auto
      next
        case k0: False
        let ?st2 = "st1\<lparr>extras := extras st1 @ map arg_string_of (takeWhile (\<lambda>t. \<not> is_opt t) ts)\<rparr>"
        have i2: "I ?st2" "set (positionals ?st2) \<subseteq> {a \<in> A. option_strings a = []}"
          using i1 assms(1) unfolding preserves_def by auto
        have dw: "toks_in A (dropWhile (\<lambda>t. \<not> is_opt t) ts)"
          using assms(4) by (rule toks_in_dropWhile)
        show ?thesis
        proof (cases "dropWhile (\<lambda>t. \<not> is_opt t) ts")
          case Nil
          with k0 rest i1 show ?thesis
            by (simp add: toks_in_def)
        next
          case c2: (Cons t1 following1)
          show ?thesis
          proof (cases t1)
            case (OptTok s t)
            with c2 k0 rest obtain m where
              "consume_optional sub p ?st2 s t following1 = Inr (st', m)"
              "ts' = drop m following1"
              by (auto split: sum.splits)
            with opt [OF i2] dw c2 OptTok show ?thesis
              by simp
          next
            case (ArgTok x)
            with c2 k0 rest i1 show ?thesis
              by (simp add: toks_in_def)
          next
            case DashTok
            with c2 k0 rest i1 show ?thesis
              by (simp add: toks_in_def)
          qed
        qed
      qed
  qed
qed

lemma parse_loop_inv:
  assumes "preserves sub p A I" and "shorts_in p A" and "I st" and "toks_in A ts"
    and "set (positionals st) \<subseteq> {a \<in> A. option_strings a = []}"
    and "parse_loop sub p st ts = Inr st'"
  shows "I st'"
  using assms
proof (induction sub p st ts rule: parse_loop.induct)
  case (1 sub p st ts)
  show ?case
  proof (cases "list_ex is_opt ts")
    case True
    with "1.prems"(6) obtain st1 ts1 where
      ps: "parse_step sub p st ts = Inr (st1, ts1)" and pl: "parse_loop sub p st1 ts1 = Inr st'"
      by (subst (asm) parse_loop.simps) (auto split: sum.splits)
    from parse_step_inv [OF "1.prems"(1-5) ps] "1.IH" [OF True ps refl "1.prems"(1,2) _ _ _ pl]
    show ?thesis by simp
  next
    case False
    with "1.prems"(6) obtain st1 n where
      cp: "consume_positionals sub p st ts = Inr (st1, n)"
      and st': "st' = st1\<lparr>extras := extras st1 @ map arg_string_of (drop n ts)\<rparr>"
      by (subst (asm) parse_loop.simps) (auto split: sum.splits)
    from consume_positionals_inv [OF "1.prems"(1,3,5) cp] "1.prems"(1) st' show ?thesis
      unfolding preserves_def by blast
  qed
qed

lemma top_parser_fields:
  "actions (top_parser v) = [help_action, version_action ''--version'' (''v'' @ v), subparsers_action]"
  "mutually_exclusive_groups (top_parser v) = []"
  "defaults (top_parser v) = []"
  "prog (top_parser v) = ''manubot''"
  by (simp_all add: top_parser_def add_argument_def new_parser_def)

lemma top_initial_state:
  "initial_state (top_parser v) =
     \<lparr>ns = [''subcommand'' \<mapsto> PNone], seen_actions = [], seen_non_default_actions = [],
      extras = [], positionals = [subparsers_action], unrecognized = []\<rparr>"
  by (simp add: initial_state_def initial_namespace_def top_parser_fields help_action_def
      version_action_def subparsers_action_def set_if_absent_def)

lemma subparsers_action_fields:
  "option_strings subparsers_action = []" "nargs subparsers_action = NargsParser"
  "kind subparsers_action = SubParsersAction" "dest subparsers_action = Some ''subcommand''"
  "choices subparsers_action = Some (map fst registered_subparsers)"
  "atype subparsers_action = TypeStr" "get_action_name subparsers_action = ''subcommand''"
  "required subparsers_action"
  by (simp_all add: subparsers_action_def get_action_name_def)

lemma take_subparsers_action:
  "take_action call_subparser (top_parser v) st subparsers_action (name # rest) =
     (if name \<in> set (map fst registered_subparsers) then
        (case call_subparser name rest of
           Inl e \<Rightarrow> Inl e
         | Inr (subnamespace, rest') \<Rightarrow>
             Inr (st\<lparr>ns := (ns st)(''subcommand'' \<mapsto> PStr name) ++ subnamespace,
                    seen_actions := ''subcommand'' # seen_actions st,
                    seen_non_default_actions := ''subcommand'' # seen_non_default_actions st,
                    unrecognized := unrecognized st @ rest'\<rparr>))
      else Inl (UsageError ''manubot'' (InvalidChoice ''subcommand'' (PStr name))))"
  by (auto simp: take_action_def get_values_def strip_dashes_def subparsers_action_fields
      values_are_default_def check_value_def get_value_def Let_def action_conflicts_def
      top_parser_fields call_action_def setattr_def
      split: sum.splits prod.splits)

lemma top_nargs_match:
  "nargs_match subparsers_action (ArgTok name # ts) = Some (Suc (length ts))"
  by (simp add: nargs_match_def subparsers_action_fields dashes_def Let_def)

lemma top_loop_arg:
  "parse_loop call_subparser (top_parser v) (initial_state (top_parser v)) (ArgTok name # ts) =
     (case take_action call_subparser (top_parser v) (initial_state (top_parser v))
             subparsers_action (name # map arg_string_of ts) of
        Inl e \<Rightarrow> Inl e
      | Inr st \<Rightarrow> Inr (st\<lparr>positionals := []\<rparr>))"
proof -
  let ?p = "top_parser v" and ?st = "initial_state (top_parser v)"
  let ?ta = "take_action call_subparser ?p ?st subparsers_action (name # map arg_string_of ts)"
  have cp: "consume_positionals call_subparser ?p ?st (ArgTok name # ts) =
            (case ?ta of Inl e \<Rightarrow> Inl e
             | Inr st \<Rightarrow> Inr (st\<lparr>positionals := []\<rparr>, Suc (length ts)))"
    by (auto simp: consume_positionals_def top_initial_state top_nargs_match
        split: sum.splits dest: take_action_frame(2))
  have fin: "parse_loop call_subparser ?p st [] = Inr st" if "positionals st = []" for st
    using that by (simp add: parse_loop.simps [of _ _ _ "[]"] consume_positionals_def)
  show ?thesis
  proof (cases "list_ex is_opt (ArgTok name # ts)")
    case True
    have "parse_step call_subparser ?p ?st (ArgTok name # ts) =
          (case ?ta of Inl e \<Rightarrow> Inl e | Inr st \<Rightarrow> Inr (st\<lparr>positionals := []\<rparr>, []))"
      by (simp add: parse_step_def cp split: sum.splits)
    with True show ?thesis
      by (simp add: parse_loop.simps [of _ _ _ "ArgTok name # ts"] fin split: sum.splits)
  next
    case False
    then show ?thesis
      by (simp add: parse_loop.simps [of _ _ _ "ArgTok name # ts"] cp split: sum.splits)
  qed
qed

lemma top_required:
  "required_actions (top_parser v) st =
     (if ''subcommand'' \<in> set (seen_actions st) then [] else [''subcommand''])"
  by (simp add: required_actions_def top_parser_fields subparsers_action_fields
      help_action_def version_action_def)

lemma parse_arguments_tokens:
  assumes "classify (top_parser v) argv = Inr (ArgTok name # ts)"
  shows "parse_arguments v argv =
     (if name \<in> set (map fst registered_subparsers) then
        (case call_subparser name (tl argv) of
           Inl e \<Rightarrow> Inl e
         | Inr (subnamespace, rest') \<Rightarrow>
             if rest' \<noteq> [] then Inl (UsageError ''manubot'' (UnrecognizedArguments rest'))
             else Inr ([''subcommand'' \<mapsto> PStr name] ++ subnamespace))
      else Inl (UsageError ''manubot'' (InvalidChoice ''subcommand'' (PStr name))))"
proof -
  from classify_strings [OF assms] have argv: "argv = name # map arg_string_of ts"
    by simp
  show ?thesis
    unfolding parse_arguments_def parse_args_def parse_known_args_def assms sum.case
      top_loop_arg take_subparsers_action
    by (simp add: argv top_initial_state top_required top_parser_fields
        split: sum.splits prod.splits)
qed

lemma action_tuples_first:
  assumes "action_tuples p following a os sep ex = Inr (tuples, xs, n)"
  shows "\<exists>args tuples'. tuples = (a, args, os) # tuples'"
  using assms
  by (cases ex) (auto split: sum.splits if_splits option.splits prod.splits)

lemma exit_action:
  assumes "kind a = HelpAction \<or> (\<exists>version. kind a = VersionAction version)"
  shows "\<exists>e. take_action sub p st a args = Inl e"
  using assms
  by (auto simp: take_action_def Let_def call_action_def split: sum.splits list.splits)

lemma exit_option:
  assumes "kind a = HelpAction \<or> (\<exists>version. kind a = VersionAction version)"
  shows "\<exists>e. consume_optional sub p st s (Some a, os, sep, ex) following = Inl e"
proof (cases "action_tuples p following a os sep ex")
  case (Inl e)
  then show ?thesis
    by (simp add: consume_optional_def)
next
  case (Inr r)
  obtain tuples xs n where r: "r = (tuples, xs, n)"
    by (cases r) auto
  from action_tuples_first [OF Inr [unfolded r]] obtain args tuples' where
    "tuples = (a, args, os) # tuples'" by blast
  with Inr r exit_action [OF assms, of sub p "st\<lparr>extras := extras st @ xs\<rparr>" args]
  show ?thesis
    by (auto simp: consume_optional_def)
qed

lemma top_option_actions:
  "a \<in> option_actions (top_parser v) \<Longrightarrow>
   kind a = HelpAction \<or> (\<exists>version. kind a = VersionAction version)"
  by (auto simp: option_actions_def option_string_actions_def top_parser_fields help_action_def
      version_action_def subparsers_action_fields)

lemma preserves_extras: "preserves sub p UNIV (\<lambda>st. extras st \<noteq> [])"
  by (auto simp: preserves_def dest: take_action_frame(1))

lemma classify_dash:
  "classify p args = Inr (DashTok # ts) \<Longrightarrow> \<exists>ss. ts = map ArgTok ss \<and> args = ''--'' # ss"
  by (cases args) (auto split: if_splits sum.splits option.splits)

lemma dashes_args [simp]: "dashes (map ArgTok ss) = 0" "\<not> list_ex is_opt (map ArgTok ss)"
  by (induction ss) (auto simp: dashes_def)

lemma parse_arguments_success:
  assumes "parse_arguments v argv = Inr args"
  shows "\<exists>name ts. classify (top_parser v) argv = Inr (ArgTok name # ts)"
proof -
  let ?p = "top_parser v"
  from assms obtain ts st where ts: "classify ?p argv = Inr ts"
    and pl: "parse_loop call_subparser ?p (initial_state ?p) ts = Inr st"
    and rq: "required_actions ?p st = []" and ex: "extras st @ unrecognized st = []"
    by (auto simp: parse_arguments_def parse_args_def parse_known_args_def
        split: sum.splits if_splits)
  show ?thesis
  proof (cases ts)
    case Nil
    with pl rq show ?thesis
      by (auto simp: parse_loop.simps [of _ _ _ "[]"] consume_positionals_def top_initial_state
          nargs_match_def subparsers_action_fields dashes_def top_required
          split: sum.splits if_splits)
  next
    case (Cons t ts')
    show ?thesis
    proof (cases t)
      case (ArgTok name)
      with ts Cons show ?thesis by simp
    next
      case DashTok
      with ts Cons classify_dash obtain ss where ss: "ts' = map ArgTok ss" "argv = ''--'' # ss"
        by blast
      have names: "''--'' \<notin> set (map fst registered_subparsers)"
        by (simp add: registered_names)
      have nm: "nargs_match subparsers_action (DashTok # map ArgTok ss) =
                (if ss = [] then None else Some (Suc (length ss)))"
        by (cases ss) (simp_all add: nargs_match_def subparsers_action_fields dashes_def Let_def)
      from pl rq Cons DashTok ss names show ?thesis
        by (auto simp: parse_loop.simps [of _ _ _ "DashTok # map ArgTok ss"]
            consume_positionals_def top_initial_state nm take_subparsers_action top_required
            split: sum.splits if_splits)
    next
      case (OptTok s tup)
      obtain a os sep e where tup: "tup = (a, os, sep, e)"
        by (cases tup) auto
      from pl Cons OptTok obtain st1 ts1 where
        ps: "parse_step call_subparser ?p (initial_state ?p) ts = Inr (st1, ts1)"
        and pl1: "parse_loop call_subparser ?p st1 ts1 = Inr st"
        by (auto simp: parse_loop.simps [of _ _ _ "OptTok s tup # ts'"] split: sum.splits)
      show ?thesis
      proof (cases a)
        case None
        with ps Cons OptTok tup have "extras st1 \<noteq> []" "positionals st1 = [subparsers_action]"
          by (auto simp: parse_step_def consume_optional_def top_initial_state)
        from parse_loop_inv [OF preserves_extras _ this(1) _ _ pl1] this(2) ex show ?thesis
          by (simp add: shorts_in_def toks_in_def list_all_iff subparsers_action_fields
              split: option.splits prod.splits)
      next
        case (Some a')
        with classify_actions [OF ts, of t a'] Cons OptTok tup
        have "a' \<in> option_actions ?p" by simp
        from exit_option [OF top_option_actions [OF this]] ps Cons OptTok tup Some
        show ?thesis
          by (auto simp: parse_step_def split: sum.splits) (metis sum.distinct(1))
      qed
    qed
  qed
qed

lemma call_subparser_registered:
  "call_subparser name rest = Inr r \<Longrightarrow>
   \<exists>sp. map_of registered_subparsers name = Some sp
        \<and> parse_known_args no_subparsers sp rest = Inr r"
  by (auto simp: call_subparser_def split: option.splits)

lemma parse_arguments_dispatch:
  assumes "parse_arguments v argv = Inr args"
  shows "\<exists>name rest sp subnamespace.
           argv = name # rest \<and> map_of registered_subparsers name = Some sp
           \<and> parse_known_args no_subparsers sp rest = Inr (subnamespace, [])
           \<and> args = [''subcommand'' \<mapsto> PStr name] ++ subnamespace"
proof -
  from parse_arguments_success [OF assms] obtain name ts where
    c: "classify (top_parser v) argv = Inr (ArgTok name # ts)" by blast
  from classify_strings [OF c] have argv: "argv = name # map arg_string_of ts"
    by simp
  from assms parse_arguments_tokens [OF c] obtain subnamespace where
    "call_subparser name (tl argv) = Inr (subnamespace, [])"
    "args = [''subcommand'' \<mapsto> PStr name] ++ subnamespace"
    by (auto split: if_splits sum.splits prod.splits)
  with call_subparser_registered argv show ?thesis
    by fastforce
qed













lemma registered_leaf: "list_all (\<lambda>(name, sp). leaf_parser sp) registered_subparsers"
  by code_simp

lemma registered_log_level: "list_all (\<lambda>(name, sp). has_log_level sp) registered_subparsers"
  by code_simp

lemma registered_initial:
  "list_all (\<lambda>(name, sp). initial_namespace sp ''log_level'' = Some (PStr ''WARNING'')
                          \<and> initial_namespace sp ''subcommand'' = None
                          \<and> initial_namespace sp ''function'' = map_of (defaults sp) ''function'')
     registered_subparsers"
  by code_simp

lemma registered_functions:
  "map (\<lambda>(name, sp). (name, defaults sp)) registered_subparsers =
     [(''process'', [(''function'', PStr ''manubot.process.process_command.cli_process'')]),
      (''cite'', [(''function'', PStr ''manubot.cite.cite_command.cli_cite'')]),
      (''webpage'', [(''function'', PStr ''manubot.webpage.webpage_command.cli_webpage'')]),
      (''ai-revision'', [(''function'', PStr ''manubot.ai_revision.ai_revision_command.cli_process'')]),
      (''ai-cite'', [(''function'', PStr ''manubot.ai_cite.ai_cite_command.cli_process'')])]"
  by code_simp

lemma shorts_in_actions: "shorts_in p (set (actions p))"
  using option_actions_subset [of p]
  by (auto simp: shorts_in_def list_all_iff option_actions_def)

lemma toks_in_actions: "classify p args = Inr ts \<Longrightarrow> toks_in (option_actions p) ts"
  using classify_actions [of p args ts]
  by (auto simp: toks_in_def list_all_iff split: option.splits)

lemma toks_in_mono: "toks_in A ts \<Longrightarrow> A \<subseteq> B \<Longrightarrow> toks_in B ts"
  by (auto simp: toks_in_def list_all_iff split: option.splits)

lemma parse_known_args_inv:
  assumes "parse_known_args sub p args = Inr (n, rest)"
    and "preserves sub p A I" and "shorts_in p A" and "I (initial_state p)"
    and "\<And>ts. classify p args = Inr ts \<Longrightarrow> toks_in A ts"
    and "{a \<in> set (actions p). option_strings a = []} \<subseteq> A"
  shows "\<exists>st. I st \<and> n = ns st \<and> required_actions p st = []"
proof -
  obtain ts st where c: "classify p args = Inr ts"
    and l: "parse_loop sub p (initial_state p) ts = Inr st"
    and r: "required_actions p st = []" and n: "n = ns st"
    using assms(1) by (auto simp: parse_known_args_def split: sum.splits if_splits)
  have "set (positionals (initial_state p)) \<subseteq> {a \<in> A. option_strings a = []}"
    using assms(6) by (auto simp: initial_state_def)
  then have "I st"
    using parse_loop_inv [OF assms(2,3,4) assms(5) [OF c] _ l] by simp
  then show ?thesis using n r by blast
qed

lemma take_action_ns_frame:
  assumes "take_action sub p st a args = Inr st'" and "kind a \<noteq> SubParsersAction"
    and "dest a \<noteq> Some k"
  shows "ns st' k = ns st k"
  using assms
  by (auto simp: take_action_def Let_def call_action_def setattr_def
      split: sum.splits if_splits list.splits act_kind.splits option.splits)

lemma take_action_choice:
  assumes "take_action sub p st a args = Inr st'" and "kind a = Store" and "nargs a = NargsNone"
    and "atype a = TypeStr" and "choices a = Some cs" and "dest a = Some k"
    and "option_strings a \<noteq> []" and "arity_ok a args"
  shows "\<exists>c \<in> set cs. ns st' k = Some (PStr c) \<and> args = [c]"
proof -
  obtain x where x: "args = [x]"
    using assms(3,7,8) by (cases args) (auto simp: arity_ok_def)
  show ?thesis
    using assms(1-7) unfolding x
    by (auto simp: take_action_def Let_def call_action_def setattr_def get_values_def
        strip_dashes_def check_value_def get_value_def values_are_default_def
        split: sum.splits if_splits list.splits)
qed

lemma subparser_registered:
  "map_of registered_subparsers name = Some sp \<Longrightarrow> subparser name = sp"
  by (simp add: subparser_def)

lemma registeredD:
  assumes "map_of registered_subparsers name = Some sp"
  shows "leaf_parser sp" and "has_log_level sp"
    and "initial_namespace sp ''log_level'' = Some (PStr ''WARNING'')"
    and "initial_namespace sp ''subcommand'' = None"
    and "initial_namespace sp ''function'' = map_of (defaults sp) ''function''"
  using map_of_SomeD [OF assms] registered_leaf registered_log_level registered_initial
  by (auto simp: list_all_iff)

lemma preservesI:
  assumes "\<And>st a args st'. I st \<Longrightarrow> a \<in> A \<Longrightarrow> arity_ok a args
             \<Longrightarrow> take_action sub p st a args = Inr st' \<Longrightarrow> I st'"
    and "\<And>st xs. I st \<Longrightarrow> I (st\<lparr>extras := extras st @ xs\<rparr>)"
    and "\<And>st ps. I st \<Longrightarrow> I (st\<lparr>positionals := ps\<rparr>)"
  shows "preserves sub p A I"
  unfolding preserves_def using assms by blast

lemma log_level_preserved:
  assumes "leaf_parser sp" and "has_log_level sp"
  shows "preserves sub sp (set (actions sp))
           (\<lambda>st. ns st ''subcommand'' = c \<and> ns st ''function'' = f
                 \<and> (\<exists>l \<in> set log_levels. ns st ''log_level'' = Some (PStr l)))"
proof (rule preservesI)
  fix st a args st'
  assume i: "ns st ''subcommand'' = c \<and> ns st ''function'' = f
             \<and> (\<exists>l \<in> set log_levels. ns st ''log_level'' = Some (PStr l))"
    and a: "a \<in> set (actions sp)" and ar: "arity_ok a args"
    and t: "take_action sub sp st a args = Inr st'"
  have k: "kind a \<noteq> SubParsersAction" "dest a \<noteq> Some ''function''"
    "dest a \<noteq> Some ''subcommand''"
    using assms(1) a by (auto simp: leaf_parser_def list_all_iff)
  have "\<exists>l \<in> set log_levels. ns st' ''log_level'' = Some (PStr l)"
  proof (cases "dest a = Some ''log_level''")
    case True
    then have "get_action_name a = ''--log-level''"
      using assms(2) a by (auto simp: has_log_level_def only_options_def list_all_iff)
    then have "kind a = Store \<and> nargs a = NargsNone \<and> atype a = TypeStr
               \<and> choices a = Some log_levels \<and> option_strings a = [''--log-level'']"
      using assms(2) a by (auto simp: has_log_level_def list_all_iff)
    then show ?thesis using take_action_choice [OF t _ _ _ _ True _ ar] by auto
  next
    case False
    then show ?thesis using take_action_ns_frame [OF t k(1) False] i by simp
  qed
  then show "ns st' ''subcommand'' = c \<and> ns st' ''function'' = f
             \<and> (\<exists>l \<in> set log_levels. ns st' ''log_level'' = Some (PStr l))"
    using take_action_ns_frame [OF t k(1) k(2)] take_action_ns_frame [OF t k(1) k(3)] i
    by simp
qed simp_all

lemma parse_arguments_namespace:
  assumes "parse_arguments v argv = Inr args"
  shows "\<exists>name rest l. argv = name # rest \<and> name \<in> set (map fst registered_subparsers)
           \<and> parse_known_args no_subparsers (subparser name) rest = Inr (args |` (- {''subcommand''}), [])
           \<and> args ''subcommand'' = Some (PStr name)
           \<and> args ''function'' = map_of (defaults (subparser name)) ''function''
           \<and> args ''log_level'' = Some (PStr l) \<and> l \<in> set log_levels"
proof -
  obtain name rest sp subnamespace where d: "argv = name # rest"
    "map_of registered_subparsers name = Some sp"
    "parse_known_args no_subparsers sp rest = Inr (subnamespace, [])"
    "args = [''subcommand'' \<mapsto> PStr name] ++ subnamespace"
    using parse_arguments_dispatch [OF assms] by blast
  note r = registeredD [OF d(2)]
  have "\<exists>st. (ns st ''subcommand'' = None \<and> ns st ''function'' = map_of (defaults sp) ''function''
                \<and> (\<exists>l \<in> set log_levels. ns st ''log_level'' = Some (PStr l)))
             \<and> subnamespace = ns st \<and> required_actions sp st = []"
  proof (rule parse_known_args_inv [OF d(3) log_level_preserved [OF r(1,2)] shorts_in_actions])
    show "ns (initial_state sp) ''subcommand'' = None
          \<and> ns (initial_state sp) ''function'' = map_of (defaults sp) ''function''
          \<and> (\<exists>l \<in> set log_levels. ns (initial_state sp) ''log_level'' = Some (PStr l))"
      using r(3,4,5) by (simp add: initial_state_def log_levels_def)
    show "toks_in (set (actions sp)) ts" if "classify sp rest = Inr ts" for ts
      using toks_in_mono [OF toks_in_actions [OF that] option_actions_subset] .
  qed auto
  then obtain l where s: "subnamespace ''subcommand'' = None"
    "subnamespace ''function'' = map_of (defaults sp) ''function''"
    "subnamespace ''log_level'' = Some (PStr l)" "l \<in> set log_levels"
    by auto
  have "args |` (- {''subcommand''}) = subnamespace"
    using s(1) unfolding d(4)
    by (auto simp: restrict_map_def map_add_def fun_eq_iff split: option.splits)
  moreover have "name \<in> set (map fst registered_subparsers)"
    using map_of_SomeD [OF d(2)] by force
  ultimately show ?thesis
    using d s by (auto simp: subparser_registered map_add_def split: option.splits)
qed











section \<open>The claims\<close>






lemma log_calls_no:
  "filter is_add (map (\<lambda>c. LogCall (f c) (g c)) cs) = []"
  "filter is_parse (map (\<lambda>c. LogCall (f c) (g c)) cs) = []"
  "filter is_set_level (map (\<lambda>c. LogCall (f c) (g c)) cs) = []"
  "filter is_import (map (\<lambda>c. LogCall (f c) (g c)) cs) = []"
  "filter is_call (map (\<lambda>c. LogCall (f c) (g c)) cs) = []"
  by (induction cs) auto


lemma fires_at_least:
  "list_ex (\<lambda>e. at_least ERROR e \<and> at_least level e) (map (\<lambda>c. LogCall (f c) (g c)) cs)
   \<Longrightarrow> list_ex (fires level) (map (\<lambda>c. (f c, g c)) cs)"
  by (induction cs) (auto simp: fires_def enabled_def ERROR_def)

lemma logged_error_exit_one:
  assumes "HandlerReturned \<in> set (trace (fst (main v imp argv initial_world)))"
    and "list_ex (\<lambda>e. at_least ERROR e \<and> at_least (root_level (fst (main v imp argv initial_world))) e)
           (butlast (trace (fst (main v imp argv initial_world))))"
  shows "exit_status (snd (main v imp argv initial_world)) = 1
         \<and> last (stderr (fst (main v imp argv initial_world))) =
             ''## CRITICAL'' @ [CHR 0x0A]
             @ ''Failure: exiting with code 1 due to logged errors'' @ [CHR 0x0A]"
proof (cases "dispatch v imp argv")
  case None
  from main_undispatched [OF None] assms(1) show ?thesis
    by (auto simp: base_trace_def)
next
  case (Some d)
  obtain args level f h where d: "d = (args, level, f, h)"
    by (cases d) auto
  note m = main_dispatched [OF Some [unfolded d]]
  show ?thesis
  proof (cases "outcome (h args)")
    case (Raises e)
    with assms(1) m show ?thesis
      by (auto simp: Let_def dispatched_world_def)
  next
    case Returns
    show ?thesis
    proof (cases "list_ex (fires level) (map call_of (emissions (h args)))")
      case True
      with Returns m show ?thesis
        by (simp add: Let_def dispatched_world_def block_def summary_def getLevelName_def)
    next
      case False
      with Returns m assms(2)
      have "list_ex (\<lambda>e. at_least ERROR e \<and> at_least level e)
              (map (\<lambda>c. LogCall (fst (call_of c)) (snd (call_of c))) (emissions (h args)))"
        by (simp add: Let_def dispatched_world_def o_def butlast_append)
      from fires_at_least [OF this] False show ?thesis
        by (simp add: o_def)
    qed
  qed
qed

text \<open>
  C1. The claim: whenever the handler returns normally and a record at \<^verbatim>\<open>ERROR\<close> or above
  was logged, a final \<^verbatim>\<open>CRITICAL\<close> summary is emitted and the exit status is 1. The
  lemma \<open>logged_error_exit_one\<close> above gives this for records that pass the root
  logger's level. \<open>main\<close> sets that level to the value of \<^verbatim>\<open>--log-level\<close>, and the
  error handler sits behind it: in the run below, with \<^verbatim>\<open>--log-level CRITICAL\<close>, the
  handler logs an \<^verbatim>\<open>ERROR\<close> record and returns, nothing is written, and the exit
  status is 0.
\<close>

theorem error_dropped_at_critical_level:
  "HandlerReturned \<in> set (trace (fst (main v (\<lambda>f. Inr failing_handler)
       [''cite'', ''--log-level'', ''CRITICAL'', ''doi:10.1/x''] initial_world)))
   \<and> LogCall ERROR ''boom'' \<in> set (trace (fst (main v (\<lambda>f. Inr failing_handler)
       [''cite'', ''--log-level'', ''CRITICAL'', ''doi:10.1/x''] initial_world)))
   \<and> stderr (fst (main v (\<lambda>f. Inr failing_handler)
       [''cite'', ''--log-level'', ''CRITICAL'', ''doi:10.1/x''] initial_world)) = []
   \<and> exit_status (snd (main v (\<lambda>f. Inr failing_handler)
       [''cite'', ''--log-level'', ''CRITICAL'', ''doi:10.1/x''] initial_world)) = 0"
  by code_simp

text \<open>
  C3. The claim: the exit status does not depend on \<^verbatim>\<open>--log-level\<close>. The two runs
  below differ in the value of \<^verbatim>\<open>--log-level\<close> only; the handler logs the same
  \<^verbatim>\<open>ERROR\<close> record in both. The first exits with status 1, the second with status 0.
\<close>

theorem exit_status_depends_on_log_level:
  "exit_status (snd (main v (\<lambda>f. Inr failing_handler)
       [''cite'', ''--log-level'', ''ERROR'', ''doi:10.1/x''] initial_world)) = 1
   \<and> exit_status (snd (main v (\<lambda>f. Inr failing_handler)
       [''cite'', ''--log-level'', ''CRITICAL'', ''doi:10.1/x''] initial_world)) = 0"
  by code_simp


lemma log_levels_attr: "l \<in> set log_levels \<Longrightarrow> \<exists>level. logging_attr l = Some level"
  by (auto simp: log_levels_def logging_attr_def)

lemma registered_identifier:
  "list_all (\<lambda>(name, sp). case map_of (defaults sp) ''function'' of
                             Some (PStr f) \<Rightarrow> True | _ \<Rightarrow> False) registered_subparsers"
  by code_simp

lemma subparser_identifier:
  assumes "name \<in> set (map fst registered_subparsers)"
  shows "\<exists>f. map_of (defaults (subparser name)) ''function'' = Some (PStr f)"
proof -
  obtain sp where sp: "map_of registered_subparsers name = Some sp"
    using assms by (cases "map_of registered_subparsers name") (auto simp: map_of_eq_None_iff)
  from map_of_SomeD [OF sp] registered_identifier
  have "case map_of (defaults sp) ''function'' of Some (PStr f) \<Rightarrow> True | _ \<Rightarrow> False"
    by (auto simp: list_all_iff)
  then show ?thesis
    unfolding subparser_registered [OF sp] by (auto split: option.splits pyval.splits)
qed

text \<open>
  C7. At registration each subcommand stores its handler as a string identifier only (the
  \<^verbatim>\<open>function\<close> default of its subparser). In a run of \<open>main\<close> no import happens before
  the arguments are parsed; a run whose parse ends in an exit imports nothing; and a run
  whose parse succeeds imports exactly once, the identifier registered for the subcommand
  named first on the command line, so no handler of another subcommand is resolved.
\<close>

theorem handler_resolved_after_parsing:
  "map (\<lambda>(name, sp). (name, defaults sp)) registered_subparsers =
     [(''process'', [(''function'', PStr ''manubot.process.process_command.cli_process'')]),
      (''cite'', [(''function'', PStr ''manubot.cite.cite_command.cli_cite'')]),
      (''webpage'', [(''function'', PStr ''manubot.webpage.webpage_command.cli_webpage'')]),
      (''ai-revision'', [(''function'', PStr ''manubot.ai_revision.ai_revision_command.cli_process'')]),
      (''ai-cite'', [(''function'', PStr ''manubot.ai_cite.ai_cite_command.cli_process'')])]
   \<and> preceded_by (\<lambda>e. e = ArgumentsParsed) is_import (trace (fst (main v imp argv initial_world)))
   \<and> (case parse_arguments v argv of
         Inl e \<Rightarrow> filter is_import (trace (fst (main v imp argv initial_world))) = []
       | Inr args \<Rightarrow>
           \<exists>f. map_of (defaults (subparser (hd argv))) ''function'' = Some (PStr f)
               \<and> filter is_import (trace (fst (main v imp argv initial_world))) = [ImportFunction f])"
proof (cases "parse_arguments v argv")
  case (Inl e)
  then show ?thesis
    by (simp add: registered_functions main_def Let_def setup_logging_and_errors_def
        addHandler_def initial_world_def)
next
  case (Inr args)
  obtain name rest l where n: "argv = name # rest" "name \<in> set (map fst registered_subparsers)"
    "args ''function'' = map_of (defaults (subparser name)) ''function''"
    "args ''log_level'' = Some (PStr l)" "l \<in> set log_levels"
    using parse_arguments_namespace [OF Inr] by blast
  obtain f where f: "map_of (defaults (subparser name)) ''function'' = Some (PStr f)"
    using subparser_identifier [OF n(2)] by blast
  obtain level where l: "logging_attr l = Some level"
    using log_levels_attr [OF n(5)] by blast
  show ?thesis
  proof (cases "imp f")
    case (Inl x)
    then show ?thesis
      using Inr n(1,3,4) f l
      by (simp add: registered_functions main_def Let_def setup_logging_and_errors_def
          addHandler_def setLevel_def initial_world_def)
  next
    case h: (Inr h)
    have "dispatch v imp argv = Some (args, level, f, h)"
      using Inr n(3,4) f l h by (simp add: dispatch_def)
    from main_dispatched [OF this] show ?thesis
      using Inr n(1) f
      by (simp add: registered_functions Let_def dispatched_world_def log_calls_no
          split: completion.splits)
  qed
qed




end
